theory Spec2Isabelle
  imports Main
begin

section \<open>Regular expressions of the region locator\<close>

text \<open>
  The region locator tests line texts with two anchored regular expressions,
  \<^verbatim>\<open>/^\(\s*(\/\/)?\s*(.*)\s*$/\<close> and \<^verbatim>\<open>/^\)\s*\;?\s*(\/\/.*)?$/\<close>, through
  \<^verbatim>\<open>RegExp.prototype.test\<close>. Neither carries a flag, so \<^verbatim>\<open>^\<close> and \<^verbatim>\<open>$\<close> are the two
  ends of the input and \<^verbatim>\<open>test\<close> keeps no position between calls. Both patterns use
  only literals, the classes \<^verbatim>\<open>\s\<close> and \<^verbatim>\<open>.\<close>, concatenation, \<^verbatim>\<open>?\<close> and \<^verbatim>\<open>*\<close>; for such
  a pattern the backtracking search succeeds exactly when the whole input belongs to
  the language of the pattern, which is what the derivative matcher below decides.
  A string is a list of code units; the model keeps the code units below 256.
\<close>

datatype atom = Lit char | WhiteSpace | AnyChar

datatype regex = Fail | Empty | Atom atom | Alt regex regex | Seq regex regex | Star regex

definition isWhiteSpace :: "char \<Rightarrow> bool" where
  "isWhiteSpace c =
     (c \<in> {CHR 0x09, CHR 0x0A, CHR 0x0B, CHR 0x0C, CHR 0x0D, CHR 0x20, CHR 0xA0})"

definition isLineTerminator :: "char \<Rightarrow> bool" where
  "isLineTerminator c = (c \<in> {CHR 0x0A, CHR 0x0D})"

fun atomMatches :: "atom \<Rightarrow> char \<Rightarrow> bool" where
  "atomMatches (Lit a) c = (c = a)"
| "atomMatches WhiteSpace c = isWhiteSpace c"
| "atomMatches AnyChar c = (\<not> isLineTerminator c)"

definition Opt :: "regex \<Rightarrow> regex" where
  "Opt r = Alt r Empty"

fun seqs :: "regex list \<Rightarrow> regex" where
  "seqs [] = Empty"
| "seqs (r # rs) = Seq r (seqs rs)"

fun nullable :: "regex \<Rightarrow> bool" where
  "nullable Fail = False"
| "nullable Empty = True"
| "nullable (Atom a) = False"
| "nullable (Alt r s) = (nullable r \<or> nullable s)"
| "nullable (Seq r s) = (nullable r \<and> nullable s)"
| "nullable (Star r) = True"

fun deriv :: "char \<Rightarrow> regex \<Rightarrow> regex" where
  "deriv c Fail = Fail"
| "deriv c Empty = Fail"
| "deriv c (Atom a) = (if atomMatches a c then Empty else Fail)"
| "deriv c (Alt r s) = Alt (deriv c r) (deriv c s)"
| "deriv c (Seq r s) =
     (if nullable r then Alt (Seq (deriv c r) s) (deriv c s) else Seq (deriv c r) s)"
| "deriv c (Star r) = Seq (deriv c r) (Star r)"

fun matches :: "regex \<Rightarrow> string \<Rightarrow> bool" where
  "matches r [] = nullable r"
| "matches r (c # cs) = matches (deriv c r) cs"

text \<open>\<^verbatim>\<open>re.test(s)\<close> for a pattern written \<^verbatim>\<open>^...$\<close> without flags.\<close>

definition test :: "regex \<Rightarrow> string \<Rightarrow> bool" where
  "test re s = matches re s"

text \<open>\<^verbatim>\<open>let startRE = new RegExp(/^\(\s*(\/\/)?\s*(.*)\s*$/);\<close>\<close>

definition startRE :: regex where
  "startRE = seqs
     [Atom (Lit (CHR ''('')),
      Star (Atom WhiteSpace),
      Opt (seqs [Atom (Lit (CHR ''/'')), Atom (Lit (CHR ''/''))]),
      Star (Atom WhiteSpace),
      Star (Atom AnyChar),
      Star (Atom WhiteSpace)]"

text \<open>\<^verbatim>\<open>let endRE = new RegExp(/^\)\s*\;?\s*(\/\/.*)?$/);\<close>\<close>

definition endRE :: regex where
  "endRE = seqs
     [Atom (Lit (CHR '')'')),
      Star (Atom WhiteSpace),
      Opt (Atom (Lit (CHR '';''))),
      Star (Atom WhiteSpace),
      Opt (seqs [Atom (Lit (CHR ''/'')), Atom (Lit (CHR ''/'')), Star (Atom AnyChar)])]"

section \<open>Documents, positions and ranges\<close>

text \<open>
  A document is the list of its line texts (without the line separators);
  \<^verbatim>\<open>document.lineCount\<close> is the length of the list. \<^verbatim>\<open>document.lineAt\<close> throws
  \<^verbatim>\<open>Error('Illegal value for `line`')\<close> on a line number outside the document, and a
  property read on \<^verbatim>\<open>undefined\<close> throws a \<^verbatim>\<open>TypeError\<close>.
\<close>

datatype js_error = TypeError | IllegalLine

record position =
  line :: nat
  character :: nat

record range =
  range_start :: position
  range_end :: position

record text_line =
  lineNumber :: nat
  lineText :: string

type_synonym document = "string list"

record text_editor =
  editorId :: nat
  document :: document
  selection :: range

definition isBefore :: "position \<Rightarrow> position \<Rightarrow> bool" where
  "isBefore a b = (line a < line b \<or> (line a = line b \<and> character a < character b))"

text \<open>\<^verbatim>\<open>new Range(a, b)\<close> and \<^verbatim>\<open>new Selection(a, b)\<close> order their two ends.\<close>

definition newRange :: "position \<Rightarrow> position \<Rightarrow> range" where
  "newRange a b =
     (if isBefore b a then \<lparr>range_start = b, range_end = a\<rparr>
      else \<lparr>range_start = a, range_end = b\<rparr>)"

definition isEmpty :: "range \<Rightarrow> bool" where
  "isEmpty r = (range_start r = range_end r)"

definition lineAt :: "document \<Rightarrow> nat \<Rightarrow> js_error + text_line" where
  "lineAt doc n =
     (if n < length doc then Inr \<lparr>lineNumber = n, lineText = doc ! n\<rparr> else Inl IllegalLine)"

definition lineRangeStart :: "text_line \<Rightarrow> position" where
  "lineRangeStart l = \<lparr>line = lineNumber l, character = 0\<rparr>"

definition lineRangeEnd :: "text_line \<Rightarrow> position" where
  "lineRangeEnd l = \<lparr>line = lineNumber l, character = length (lineText l)\<rparr>"

section \<open>The locator functions\<close>

text \<open>\<^verbatim>\<open>currentDocumentSelection\<close>: the selection of the active editor, or null.\<close>

definition currentDocumentSelection :: "text_editor option \<Rightarrow> js_error + range option" where
  "currentDocumentSelection activeTextEditor =
     (case activeTextEditor of
        None \<Rightarrow> Inr None
      | Some ed \<Rightarrow> Inr (Some (selection ed)))"

text \<open>\<^verbatim>\<open>currentDocumentLine\<close>: the whole lines the selection touches, or null.\<close>

definition currentDocumentLine :: "text_editor option \<Rightarrow> js_error + range option" where
  "currentDocumentLine activeTextEditor =
     (case activeTextEditor of
        None \<Rightarrow> Inr None
      | Some ed \<Rightarrow>
          (case lineAt (document ed) (line (range_start (selection ed))) of
             Inl e \<Rightarrow> Inl e
           | Inr startLine \<Rightarrow>
               (case lineAt (document ed) (line (range_end (selection ed))) of
                  Inl e \<Rightarrow> Inl e
                | Inr endLine \<Rightarrow>
                    Inr (Some (newRange (lineRangeStart startLine) (lineRangeEnd endLine))))))"

text \<open>
  The backward loop of \<^verbatim>\<open>currentDocumentRegion\<close>:
  \<^verbatim>\<open>while (!startRE.test(startLine.text)) { if (startLine.lineNumber == 0) { startLine = null; break; } else { startLine = document.lineAt(startLine.lineNumber - 1); } }\<close>
\<close>

function scanStart :: "document \<Rightarrow> text_line \<Rightarrow> js_error + text_line option" where
  "scanStart doc startLine =
     (if test startRE (lineText startLine) then Inr (Some startLine)
      else if lineNumber startLine = 0 then Inr None
      else (case lineAt doc (lineNumber startLine - 1) of
              Inl e \<Rightarrow> Inl e
            | Inr l \<Rightarrow> scanStart doc l))"
  by pat_completeness auto
termination
  by (relation "measure (\<lambda>(doc, l). lineNumber l)") (auto simp: lineAt_def split: if_splits)

text \<open>
  The forward loop, entered with \<^verbatim>\<open>nestDepth = 1\<close>: on each line the opening pattern
  is tested, then the closing pattern, then the counter, then the end of the document.
\<close>

function scanEnd :: "document \<Rightarrow> text_line \<Rightarrow> int \<Rightarrow> js_error + text_line option" where
  "scanEnd doc endLine nestDepth =
     (let d1 = (if test startRE (lineText endLine) then nestDepth + 1 else nestDepth);
          d2 = (if test endRE (lineText endLine) then d1 - 1 else d1)
      in if d2 = 0 then Inr (Some endLine)
         else if int (lineNumber endLine) = int (length doc) - 1 then Inr None
         else (case lineAt doc (lineNumber endLine + 1) of
                 Inl e \<Rightarrow> Inl e
               | Inr l \<Rightarrow> scanEnd doc l d2))"
  by pat_completeness auto
termination
  by (relation "measure (\<lambda>(doc, l, d). length doc - lineNumber l)")
    (auto simp: lineAt_def split: if_splits)

text \<open>
  \<^verbatim>\<open>currentDocumentRegion\<close>. The document is read from the active editor before the
  editor is tested, so without an active editor the first statement throws.
\<close>

definition currentDocumentRegion :: "text_editor option \<Rightarrow> js_error + range option" where
  "currentDocumentRegion activeTextEditor =
     (case activeTextEditor of
        None \<Rightarrow> Inl TypeError
      | Some ed \<Rightarrow>
          (case lineAt (document ed) (line (range_start (selection ed))) of
             Inl e \<Rightarrow> Inl e
           | Inr startLine0 \<Rightarrow>
               (case lineAt (document ed) (line (range_end (selection ed))) of
                  Inl e \<Rightarrow> Inl e
                | Inr endLine0 \<Rightarrow>
                    (case scanStart (document ed) startLine0 of
                       Inl e \<Rightarrow> Inl e
                     | Inr None \<Rightarrow> Inr None
                     | Inr (Some startLine) \<Rightarrow>
                         (case scanEnd (document ed) endLine0 1 of
                            Inl e \<Rightarrow> Inl e
                          | Inr None \<Rightarrow> Inr None
                          | Inr (Some endLine) \<Rightarrow>
                              Inr (Some (newRange (lineRangeStart startLine)
                                                  (lineRangeEnd endLine))))))))"

section \<open>The feedback controller\<close>

text \<open>
  The module state: the counter \<^verbatim>\<open>evaluateUID\<close>, the configuration read at load time,
  and what the host keeps for the module: for every editor the ranges painted with
  each of the three decoration types, the armed timers, the promises resolved so far,
  the coroutines suspended at an \<^verbatim>\<open>await\<close>, and the requests whose response is
  outstanding (each with the completion callback its \<^verbatim>\<open>then\<close> handler holds).
  An editor is identified by \<open>editorId\<close>. The counter is a JavaScript number that only
  \<^verbatim>\<open>++\<close> changes; it is modelled by a natural number, which is exact below \<open>2 ^ 53\<close>
  invocations.
\<close>

datatype decorator = evaluateDecorator | successDecorator | errorDecorator

record decoration =
  decoRange :: range
  hoverMessage :: string

text \<open>
  The two promises an invocation creates, named by the generation of the invocation
  that created them.
\<close>

datatype promise = FlashDelay nat | PostFlashDelay nat

text \<open>
  The closure \<^verbatim>\<open>onStartEvaluate\<close> returns, as the values it captures.
\<close>

record finish_func =
  textEditor :: nat
  capturedRange :: range
  currentEvaluateUID :: nat
  evaluateFlashDelay :: promise
  postEvaluateFlashDelay :: promise

text \<open>
  The callbacks handed to \<^verbatim>\<open>setTimeout\<close>: the timeout closure of \<^verbatim>\<open>onStartEvaluate\<close> (it
  captures the editor and \<^verbatim>\<open>currentEvaluateUID\<close>), and the resolver of a promise.
\<close>

datatype callback = ClearOnTimeout nat nat | Resolve promise

record timer =
  callback :: callback
  delay :: nat

text \<open>
  \<^verbatim>\<open>onEndEvaluate\<close> suspended at its first \<^verbatim>\<open>await\<close> (editor, range, response text,
  isError, the second promise) or at its second one (editor, isError).
\<close>

datatype continuation =
    AfterFlashDelay nat range string bool promise
  | AfterPostFlashDelay nat bool

record state =
  evaluateUID :: nat
  configuration :: "string \<Rightarrow> nat option"
  decorations :: "nat \<Rightarrow> decorator \<Rightarrow> decoration list"
  timers :: "timer list"
  resolved :: "promise list"
  suspended :: "(promise \<times> continuation) list"
  requests :: "finish_func list"

record evaluate_selection_result =
  compileError :: "string option"
  result :: "string option"
  error :: "string option"

definition initial :: "(string \<Rightarrow> nat option) \<Rightarrow> state" where
  "initial cfg =
     \<lparr>evaluateUID = 0, configuration = cfg, decorations = (\<lambda>e d. []), timers = [],
      resolved = [], suspended = [], requests = []\<rparr>"

definition decoratorTimeout :: nat where
  "decoratorTimeout = 5000"

text \<open>\<^verbatim>\<open>configuration.get(key, default)\<close>\<close>

definition configGet :: "(string \<Rightarrow> nat option) \<Rightarrow> string \<Rightarrow> nat \<Rightarrow> nat" where
  "configGet cfg key dflt = (case cfg key of None \<Rightarrow> dflt | Some v \<Rightarrow> v)"

text \<open>\<^verbatim>\<open>textEditor.setDecorations(decorator, list)\<close> replaces the list of that type.\<close>

definition setDecorations :: "nat \<Rightarrow> decorator \<Rightarrow> decoration list \<Rightarrow> state \<Rightarrow> state" where
  "setDecorations e d ds s = s\<lparr>decorations := (decorations s)(e := (decorations s e)(d := ds))\<rparr>"

definition setTimeout :: "callback \<Rightarrow> nat \<Rightarrow> state \<Rightarrow> state" where
  "setTimeout cb ms s = s\<lparr>timers := timers s @ [\<lparr>callback = cb, delay = ms\<rparr>]\<rparr>"

definition await :: "promise \<Rightarrow> continuation \<Rightarrow> state \<Rightarrow> state" where
  "await p k s = s\<lparr>suspended := suspended s @ [(p, k)]\<rparr>"

text \<open>\<^verbatim>\<open>onEndEvaluate\<close> runs up to \<^verbatim>\<open>await flashDelay\<close> when it is called.\<close>

definition onEndEvaluate ::
  "nat \<Rightarrow> range \<Rightarrow> string \<Rightarrow> bool \<Rightarrow> promise \<Rightarrow> promise \<Rightarrow> state \<Rightarrow> state" where
  "onEndEvaluate ed rng responseText isError flashDelay postDelay s =
     await flashDelay (AfterFlashDelay ed rng responseText isError postDelay) s"

text \<open>The rest of \<^verbatim>\<open>onEndEvaluate\<close>, from one \<^verbatim>\<open>await\<close> to the next.\<close>

fun runContinuation :: "continuation \<Rightarrow> state \<Rightarrow> state" where
  "runContinuation (AfterFlashDelay ed rng responseText isError postDelay) s =
     (let s1 = setDecorations ed evaluateDecorator [] s
      in if isError then
           (let s2 = setDecorations ed successDecorator [] s1;
                s3 = setDecorations ed errorDecorator
                       [\<lparr>decoRange = rng, hoverMessage = responseText\<rparr>] s2
            in await postDelay (AfterPostFlashDelay ed isError) s3)
         else
           (let s2 = setDecorations ed errorDecorator [] s1;
                s3 = setDecorations ed successDecorator
                       [\<lparr>decoRange = rng, hoverMessage = responseText\<rparr>] s2
            in await postDelay (AfterPostFlashDelay ed isError) s3))"
| "runContinuation (AfterPostFlashDelay ed isError) s =
     (if isError then setDecorations ed errorDecorator [] s
      else setDecorations ed successDecorator [] s)"

text \<open>
  \<^verbatim>\<open>onStartEvaluate\<close>: the new state and the returned closure. The counter is
  incremented first; the three timers are armed in the order of the source.
\<close>

definition onStartEvaluate :: "nat \<Rightarrow> range \<Rightarrow> state \<Rightarrow> finish_func \<times> state" where
  "onStartEvaluate ed rng s =
     (let uid = evaluateUID s + 1;
          s1 = s\<lparr>evaluateUID := uid\<rparr>;
          s2 = setDecorations ed successDecorator [] s1;
          s3 = setDecorations ed errorDecorator [] s2;
          s4 = setDecorations ed evaluateDecorator
                 [\<lparr>decoRange = rng, hoverMessage = ''Evaluated the thing''\<rparr>] s3;
          s5 = setTimeout (ClearOnTimeout ed uid) decoratorTimeout s4;
          decoratorFlashTime = configGet (configuration s) ''supercollider.evaluate.flashTime'' 50;
          s6 = setTimeout (Resolve (FlashDelay uid)) decoratorFlashTime s5;
          postEvaluateFlashTime =
            configGet (configuration s) ''supercollider.evaluate.postFlashTime'' 600;
          s7 = setTimeout (Resolve (PostFlashDelay uid)) postEvaluateFlashTime s6
      in (\<lparr>textEditor = ed, capturedRange = rng, currentEvaluateUID = uid,
           evaluateFlashDelay = FlashDelay uid, postEvaluateFlashDelay = PostFlashDelay uid\<rparr>,
          s7))"

text \<open>The returned closure \<^verbatim>\<open>(text, isError) => { if (evaluateUID == currentEvaluateUID) ... }\<close>.\<close>

definition finishFunc :: "finish_func \<Rightarrow> string \<Rightarrow> bool \<Rightarrow> state \<Rightarrow> state" where
  "finishFunc f responseText isError s =
     (if evaluateUID s = currentEvaluateUID f then
        onEndEvaluate (textEditor f) (capturedRange f) responseText isError
          (evaluateFlashDelay f) (postEvaluateFlashDelay f) s
      else s)"

text \<open>What a timer does when it fires.\<close>

fun runCallback :: "callback \<Rightarrow> state \<Rightarrow> state" where
  "runCallback (ClearOnTimeout ed currentUID) s =
     (if evaluateUID s = currentUID then setDecorations ed evaluateDecorator [] s else s)"
| "runCallback (Resolve p) s = s\<lparr>resolved := p # resolved s\<rparr>"

section \<open>The dispatcher\<close>

text \<open>
  The \<^verbatim>\<open>then\<close> handler of \<^verbatim>\<open>evaluateString\<close>: the call of the completion callback it
  makes for a response, if it makes one, and the handler itself.
\<close>

definition completionCall :: "evaluate_selection_result \<Rightarrow> (string \<times> bool) option" where
  "completionCall r =
     (if result r \<noteq> None then Some (the (result r), False)
      else if compileError r \<noteq> None then Some (the (compileError r), True)
      else if error r \<noteq> None then Some (the (error r), True)
      else None)"

definition onResponse :: "finish_func \<Rightarrow> evaluate_selection_result \<Rightarrow> state \<Rightarrow> state" where
  "onResponse f r s =
     (case completionCall r of
        None \<Rightarrow> s
      | Some (responseText, isError) \<Rightarrow> finishFunc f responseText isError s)"

text \<open>
  \<^verbatim>\<open>evaluateString\<close> up to its return: nothing without an active editor; otherwise
  the feedback starts and the request is sent, its handler holding the closure.
\<close>

definition evaluateString :: "text_editor option \<Rightarrow> range \<Rightarrow> state \<Rightarrow> state" where
  "evaluateString activeTextEditor rng s =
     (case activeTextEditor of
        None \<Rightarrow> s
      | Some ed \<Rightarrow>
          (let (f, s1) = onStartEvaluate (editorId ed) rng s
           in s1\<lparr>requests := requests s1 @ [f]\<rparr>))"

section \<open>The command handlers\<close>

text \<open>
  Each handler starts with \<^verbatim>\<open>const document = vscode.window.activeTextEditor.document;\<close>,
  which throws without an active editor.
\<close>

definition evaluateSelectionCommand ::
  "text_editor option \<Rightarrow> range option \<Rightarrow> state \<Rightarrow> js_error + state" where
  "evaluateSelectionCommand activeTextEditor inputRange s =
     (case activeTextEditor of
        None \<Rightarrow> Inl TypeError
      | Some ed \<Rightarrow>
          (case (case inputRange of
                   Some r \<Rightarrow> Inr (Some (newRange (range_start r) (range_end r)))
                 | None \<Rightarrow> currentDocumentSelection activeTextEditor) of
             Inl e \<Rightarrow> Inl e
           | Inr rng0 \<Rightarrow>
               (case (if rng0 = None \<or> isEmpty (the rng0)
                      then currentDocumentLine activeTextEditor else Inr rng0) of
                  Inl e \<Rightarrow> Inl e
                | Inr None \<Rightarrow> Inr s
                | Inr (Some rng) \<Rightarrow> Inr (evaluateString activeTextEditor rng s))))"

definition evaluateLineCommand :: "text_editor option \<Rightarrow> state \<Rightarrow> js_error + state" where
  "evaluateLineCommand activeTextEditor s =
     (case activeTextEditor of
        None \<Rightarrow> Inl TypeError
      | Some ed \<Rightarrow>
          (case currentDocumentLine activeTextEditor of
             Inl e \<Rightarrow> Inl e
           | Inr None \<Rightarrow> Inr s
           | Inr (Some rng) \<Rightarrow> Inr (evaluateString activeTextEditor rng s)))"

definition evaluateRegionCommand :: "text_editor option \<Rightarrow> state \<Rightarrow> js_error + state" where
  "evaluateRegionCommand activeTextEditor s =
     (case activeTextEditor of
        None \<Rightarrow> Inl TypeError
      | Some ed \<Rightarrow>
          (case currentDocumentRegion activeTextEditor of
             Inl e \<Rightarrow> Inl e
           | Inr None \<Rightarrow> Inr s
           | Inr (Some rng) \<Rightarrow> Inr (evaluateString activeTextEditor rng s)))"

section \<open>Runs of the event loop\<close>

text \<open>
  Between two suspension points the code runs without interruption, so a run is a
  sequence of events: an invocation of \<^verbatim>\<open>evaluateString\<close>, the response to an
  outstanding request, an armed timer firing, or a suspended coroutine resuming once
  the promise it awaits is resolved. Any armed timer may fire next, whatever its
  delay: the runs of the model include every run the host can produce.
\<close>

datatype event =
    Evaluate "text_editor option" range
  | Response nat evaluate_selection_result
  | TimerFires nat
  | Resumes nat

definition removeAt :: "nat \<Rightarrow> 'a list \<Rightarrow> 'a list" where
  "removeAt i xs = take i xs @ drop (Suc i) xs"

fun step :: "event \<Rightarrow> state \<Rightarrow> state" where
  "step (Evaluate activeTextEditor rng) s = evaluateString activeTextEditor rng s"
| "step (Response i r) s =
     (if i < length (requests s)
      then onResponse (requests s ! i) r (s\<lparr>requests := removeAt i (requests s)\<rparr>)
      else s)"
| "step (TimerFires i) s =
     (if i < length (timers s)
      then runCallback (callback (timers s ! i)) (s\<lparr>timers := removeAt i (timers s)\<rparr>)
      else s)"
| "step (Resumes i) s =
     (if i < length (suspended s) \<and> fst (suspended s ! i) \<in> set (resolved s)
      then runContinuation (snd (suspended s ! i)) (s\<lparr>suspended := removeAt i (suspended s)\<rparr>)
      else s)"

fun run :: "event list \<Rightarrow> state \<Rightarrow> state" where
  "run [] s = s"
| "run (ev # evs) s = run evs (step ev s)"

section \<open>Vocabulary of the properties\<close>

text \<open>
  A line record that \<^verbatim>\<open>document.lineAt\<close> returns for the document; the lines with
  numbers \<open>e\<close> to \<open>j\<close>; the number of lines that match the opening pattern and the
  closing pattern; the value of the nesting counter after one line and after a list
  of lines.
\<close>

definition lineOf :: "document \<Rightarrow> text_line \<Rightarrow> bool" where
  "lineOf doc l = (lineAt doc (lineNumber l) = Inr l)"

definition scanned :: "document \<Rightarrow> nat \<Rightarrow> nat \<Rightarrow> string list" where
  "scanned doc e j = take (Suc j - e) (drop e doc)"

definition opens :: "string list \<Rightarrow> nat" where
  "opens ls = length (filter (test startRE) ls)"

definition closes :: "string list \<Rightarrow> nat" where
  "closes ls = length (filter (test endRE) ls)"

definition depthAfter :: "int \<Rightarrow> string list \<Rightarrow> int" where
  "depthAfter d ls = d + int (opens ls) - int (closes ls)"

definition lineDepth :: "int \<Rightarrow> string \<Rightarrow> int" where
  "lineDepth d s =
     (let d1 = (if test startRE s then d + 1 else d)
      in if test endRE s then d1 - 1 else d1)"

text \<open>
  The language of a pattern: the texts it matches as a whole. \<open>repeated A\<close> holds the
  concatenations of finitely many texts of \<open>A\<close>.
\<close>

inductive_set repeated :: "string set \<Rightarrow> string set" for A :: "string set" where
  none: "[] \<in> repeated A"
| more: "u \<in> A \<Longrightarrow> v \<in> repeated A \<Longrightarrow> u @ v \<in> repeated A"

fun lang :: "regex \<Rightarrow> string set" where
  "lang Fail = {}"
| "lang Empty = {[]}"
| "lang (Atom a) = {[c] |c. atomMatches a c}"
| "lang (Alt r s) = lang r \<union> lang s"
| "lang (Seq r s) = {u @ v |u v. u \<in> lang r \<and> v \<in> lang s}"
| "lang (Star r) = repeated (lang r)"

text \<open>
  An editor as the host provides it: the selection is a range (its start is not after
  its end) that lies in the document.
\<close>

definition validEditor :: "text_editor \<Rightarrow> bool" where
  "validEditor ed =
     (\<not> isBefore (range_end (selection ed)) (range_start (selection ed))
      \<and> line (range_end (selection ed)) < length (document ed))"

text \<open>An editor with the cursor on line \<open>n\<close>.\<close>

definition cursorOn :: "document \<Rightarrow> nat \<Rightarrow> text_editor" where
  "cursorOn doc n =
     \<lparr>editorId = 0, document = doc,
      selection = \<lparr>range_start = \<lparr>line = n, character = 0\<rparr>,
                   range_end = \<lparr>line = n, character = 0\<rparr>\<rparr>\<rparr>"

text \<open>The number of fields a response defines.\<close>

definition definedFields :: "evaluate_selection_result \<Rightarrow> nat" where
  "definedFields r = length (filter (\<lambda>x. x \<noteq> None) [result r, compileError r, error r])"

text \<open>
  An event that starts an invocation, and the generations the invocations of a run
  capture, in the order of the run.
\<close>

fun startsInvocation :: "event \<Rightarrow> bool" where
  "startsInvocation (Evaluate (Some ed) rng) = True"
| "startsInvocation ev = False"

fun generations :: "event list \<Rightarrow> state \<Rightarrow> nat list" where
  "generations [] s = []"
| "generations (Evaluate (Some ed) rng # evs) s =
     currentEvaluateUID (fst (onStartEvaluate (editorId ed) rng s))
       # generations evs (step (Evaluate (Some ed) rng) s)"
| "generations (ev # evs) s = generations evs (step ev s)"

text \<open>Two ranges, an editor and a well-formed response for the examples.\<close>

definition someRange :: range where
  "someRange = \<lparr>range_start = \<lparr>line = 0, character = 0\<rparr>,
                range_end = \<lparr>line = 0, character = 5\<rparr>\<rparr>"

definition someDoc :: "nat \<Rightarrow> text_editor" where
  "someDoc n = \<lparr>editorId = n, document = [''1 + 1''], selection = someRange\<rparr>"

definition otherRange :: range where
  "otherRange = \<lparr>range_start = \<lparr>line = 1, character = 0\<rparr>,
                 range_end = \<lparr>line = 1, character = 5\<rparr>\<rparr>"

definition resultOnly :: "string \<Rightarrow> evaluate_selection_result" where
  "resultOnly t = \<lparr>compileError = None, result = Some t, error = None\<rparr>"

section \<open>The regular expressions\<close>

lemma matches_Fail: "matches Fail w = False"
  by (induction w) auto

lemma matches_Alt: "matches (Alt r s) w = (matches r w \<or> matches s w)"
  by (induction w arbitrary: r s) auto

lemma matches_Seq_Fail: "matches (Seq Fail r) w = False"
  by (induction w arbitrary: r) (auto simp: matches_Alt matches_Fail)

lemma test_startRE_Cons: "test startRE w \<Longrightarrow> \<exists>t. w = CHR ''('' # t"
  by (cases w) (auto simp: test_def startRE_def matches_Seq_Fail split: if_splits)

lemma test_endRE_Cons: "test endRE w \<Longrightarrow> \<exists>t. w = CHR '')'' # t"
  by (cases w) (auto simp: test_def endRE_def matches_Seq_Fail split: if_splits)

lemma not_both: "\<not> (test startRE w \<and> test endRE w)"
  using test_startRE_Cons test_endRE_Cons by fastforce

text \<open>
  The matcher decides membership in the language of the pattern. On a line text, which
  holds no line terminator, the opening pattern tests for a leading \<^verbatim>\<open>(\<close>.
\<close>

lemma repeated_Cons_D:
  "x \<in> repeated A \<Longrightarrow> x = c # w \<Longrightarrow> \<exists>u v. w = u @ v \<and> c # u \<in> A \<and> v \<in> repeated A"
proof (induction arbitrary: w rule: repeated.induct)
  case none
  then show ?case by simp
next
  case (more u v)
  show ?case
  proof (cases u)
    case Nil
    with more show ?thesis by simp
  next
    case (Cons a u')
    with more.prems have "a = c" "w = u' @ v" by simp_all
    with more.hyps Cons show ?thesis by blast
  qed
qed

lemma repeated_Cons:
  "c # w \<in> repeated A \<longleftrightarrow> (\<exists>u v. w = u @ v \<and> c # u \<in> A \<and> v \<in> repeated A)"
proof
  assume "c # w \<in> repeated A"
  then show "\<exists>u v. w = u @ v \<and> c # u \<in> A \<and> v \<in> repeated A"
    using repeated_Cons_D by blast
next
  assume "\<exists>u v. w = u @ v \<and> c # u \<in> A \<and> v \<in> repeated A"
  then obtain u v where "w = u @ v" "c # u \<in> A" "v \<in> repeated A" by blast
  then show "c # w \<in> repeated A" using repeated.more[of "c # u" A v] by simp
qed

lemma nullable_lang: "nullable r \<longleftrightarrow> [] \<in> lang r"
  by (induction r) (auto intro: repeated.none)

lemma lang_SeqI: "u \<in> lang r \<Longrightarrow> v \<in> lang s \<Longrightarrow> u @ v \<in> lang (Seq r s)"
  by auto

lemma deriv_lang: "w \<in> lang (deriv c r) \<longleftrightarrow> c # w \<in> lang r"
proof (induction r arbitrary: w)
  case (Seq r s)
  show ?case
  proof (cases "nullable r")
    case True
    then have n: "[] \<in> lang r" by (simp add: nullable_lang)
    show ?thesis
    proof
      assume "w \<in> lang (deriv c (Seq r s))"
      then consider u v where "w = u @ v" "u \<in> lang (deriv c r)" "v \<in> lang s"
        | "w \<in> lang (deriv c s)"
        using True by auto
      then show "c # w \<in> lang (Seq r s)"
      proof cases
        case 1
        then have "c # u \<in> lang r" using Seq.IH(1) by simp
        with 1 have "(c # u) @ v \<in> lang (Seq r s)" by (intro lang_SeqI)
        with 1 show ?thesis by simp
      next
        case 2
        then have "c # w \<in> lang s" using Seq.IH(2) by simp
        with n have "[] @ (c # w) \<in> lang (Seq r s)" by (intro lang_SeqI)
        then show ?thesis by simp
      qed
    next
      assume "c # w \<in> lang (Seq r s)"
      then obtain u v where uv: "c # w = u @ v" "u \<in> lang r" "v \<in> lang s" by auto
      show "w \<in> lang (deriv c (Seq r s))"
      proof (cases u)
        case Nil
        with uv have "w \<in> lang (deriv c s)" using Seq.IH(2) by simp
        with True show ?thesis by simp
      next
        case (Cons a u')
        with uv have "a = c" "w = u' @ v" by simp_all
        moreover from Cons uv \<open>a = c\<close> have "u' \<in> lang (deriv c r)" using Seq.IH(1) by simp
        ultimately show ?thesis using True uv(3) by auto
      qed
    qed
  next
    case False
    then have n: "[] \<notin> lang r" by (simp add: nullable_lang)
    show ?thesis
    proof
      assume "w \<in> lang (deriv c (Seq r s))"
      then obtain u v where 1: "w = u @ v" "u \<in> lang (deriv c r)" "v \<in> lang s"
        using False by auto
      then have "c # u \<in> lang r" using Seq.IH(1) by simp
      with 1 have "(c # u) @ v \<in> lang (Seq r s)" by (intro lang_SeqI)
      with 1 show "c # w \<in> lang (Seq r s)" by simp
    next
      assume "c # w \<in> lang (Seq r s)"
      then obtain u v where uv: "c # w = u @ v" "u \<in> lang r" "v \<in> lang s" by auto
      with n obtain u' where "u = c # u'" "w = u' @ v" by (cases u) auto
      moreover from this uv have "u' \<in> lang (deriv c r)" using Seq.IH(1) by simp
      ultimately show "w \<in> lang (deriv c (Seq r s))" using False uv(3) by auto
    qed
  qed
next
  case (Star r)
  have "w \<in> lang (deriv c (Star r)) \<longleftrightarrow>
          (\<exists>u v. w = u @ v \<and> u \<in> lang (deriv c r) \<and> v \<in> repeated (lang r))"
    by auto
  also have "\<dots> \<longleftrightarrow> (\<exists>u v. w = u @ v \<and> c # u \<in> lang r \<and> v \<in> repeated (lang r))"
    using Star.IH by simp
  also have "\<dots> \<longleftrightarrow> c # w \<in> lang (Star r)"
    by (simp add: repeated_Cons)
  finally show ?case .
qed auto

lemma matches_lang: "matches r w \<longleftrightarrow> w \<in> lang r"
  by (induction w arbitrary: r) (simp_all add: nullable_lang deriv_lang)

lemma lang_AnyChar: "\<forall>c\<in>set t. \<not> isLineTerminator c \<Longrightarrow> t \<in> lang (Star (Atom AnyChar))"
proof (induction t)
  case Nil
  then show ?case by (simp add: repeated.none)
next
  case (Cons c t)
  then have "[c] \<in> lang (Atom AnyChar)" "t \<in> repeated (lang (Atom AnyChar))" by simp_all
  then have "[c] @ t \<in> repeated (lang (Atom AnyChar))" by (rule repeated.more)
  then show ?case by simp
qed

lemma test_startRE_iff:
  assumes "\<forall>c\<in>set w. \<not> isLineTerminator c"
  shows "test startRE w \<longleftrightarrow> (\<exists>t. w = CHR ''('' # t)"
proof
  assume "test startRE w"
  then show "\<exists>t. w = CHR ''('' # t" by (rule test_startRE_Cons)
next
  assume "\<exists>t. w = CHR ''('' # t"
  then obtain t where w: "w = CHR ''('' # t" by blast
  with assms have "\<forall>c\<in>set t. \<not> isLineTerminator c" by simp
  then have t: "t \<in> lang (Star (Atom AnyChar))" by (rule lang_AnyChar)
  have e: "[] \<in> lang (Star (Atom WhiteSpace))" by (simp add: repeated.none)
  have o: "[] \<in> lang (Opt (seqs [Atom (Lit (CHR ''/'')), Atom (Lit (CHR ''/''))]))"
    by (simp add: Opt_def)
  have p: "[CHR ''(''] \<in> lang (Atom (Lit (CHR ''('')))" by simp
  have z: "[] \<in> lang (seqs [])" by simp
  have "[CHR ''(''] @ [] @ [] @ [] @ t @ [] @ [] \<in> lang startRE"
    unfolding startRE_def seqs.simps
    by (intro lang_SeqI p e o[unfolded seqs.simps] t z[unfolded seqs.simps])
  then show "test startRE w" by (simp add: test_def matches_lang w)
qed

section \<open>The backward scan\<close>

lemma lineOf_iff: "lineOf doc l \<longleftrightarrow> lineNumber l < length doc \<and> lineText l = doc ! lineNumber l"
  by (cases l) (auto simp: lineOf_def lineAt_def)

lemma lineAt_lineOf: "lineAt doc n = Inr l \<Longrightarrow> lineOf doc l \<and> lineNumber l = n"
  by (auto simp: lineOf_def lineAt_def split: if_splits)

lemma scanStart_Some:
  "lineOf doc l \<Longrightarrow> scanStart doc l = Inr (Some l') \<Longrightarrow>
     lineOf doc l' \<and> lineNumber l' \<le> lineNumber l \<and> test startRE (lineText l')
     \<and> (\<forall>i. lineNumber l' < i \<and> i \<le> lineNumber l \<longrightarrow> \<not> test startRE (doc ! i))"
proof (induction doc l rule: scanStart.induct)
  case (1 doc startLine)
  show ?case
  proof (cases "test startRE (lineText startLine)")
    case True
    with "1.prems" show ?thesis by auto
  next
    case False
    note nomatch = this
    show ?thesis
    proof (cases "lineNumber startLine = 0")
      case True
      with nomatch "1.prems" show ?thesis by simp
    next
      case False
      from "1.prems"(1) have lt: "lineNumber startLine - 1 < length doc"
        by (auto simp: lineOf_iff)
      define p where "p = \<lparr>lineNumber = lineNumber startLine - 1, lineText = doc ! (lineNumber startLine - 1)\<rparr>"
      have at: "lineAt doc (lineNumber startLine - 1) = Inr p"
        using lt by (simp add: lineAt_def p_def)
      have rec: "scanStart doc p = Inr (Some l')"
        using "1.prems"(2) nomatch False at by simp
      have pl: "lineOf doc p" using at lineAt_lineOf by blast
      from "1.IH"[OF nomatch False at pl rec]
      have ih: "lineOf doc l'" "lineNumber l' \<le> lineNumber p" "test startRE (lineText l')"
        "\<forall>i. lineNumber l' < i \<and> i \<le> lineNumber p \<longrightarrow> \<not> test startRE (doc ! i)"
        by auto
      have pn: "lineNumber p = lineNumber startLine - 1" by (simp add: p_def)
      have "\<not> test startRE (doc ! i)" if "lineNumber l' < i" "i \<le> lineNumber startLine" for i
      proof (cases "i = lineNumber startLine")
        case True
        then show ?thesis using nomatch "1.prems"(1) by (simp add: lineOf_iff)
      next
        case False
        then show ?thesis using ih(4) that pn by auto
      qed
      then show ?thesis using ih pn by auto
    qed
  qed
qed

lemma scanStart_None:
  "lineOf doc l \<Longrightarrow> scanStart doc l = Inr None \<Longrightarrow> i \<le> lineNumber l \<Longrightarrow> \<not> test startRE (doc ! i)"
proof (induction doc l rule: scanStart.induct)
  case (1 doc startLine)
  have nomatch: "\<not> test startRE (lineText startLine)"
    using "1.prems"(2) by (auto split: if_splits)
  show ?case
  proof (cases "lineNumber startLine = 0")
    case True
    then show ?thesis using nomatch "1.prems" by (simp add: lineOf_iff)
  next
    case False
    from "1.prems"(1) have lt: "lineNumber startLine - 1 < length doc"
      by (auto simp: lineOf_iff)
    define p where "p = \<lparr>lineNumber = lineNumber startLine - 1, lineText = doc ! (lineNumber startLine - 1)\<rparr>"
    have at: "lineAt doc (lineNumber startLine - 1) = Inr p"
      using lt by (simp add: lineAt_def p_def)
    have rec: "scanStart doc p = Inr None"
      using "1.prems"(2) nomatch False at by simp
    have pl: "lineOf doc p" using at lineAt_lineOf by blast
    show ?thesis
    proof (cases "i = lineNumber startLine")
      case True
      then show ?thesis using nomatch "1.prems"(1) by (simp add: lineOf_iff)
    next
      case False
      then have "i \<le> lineNumber p" using "1.prems"(3) by (simp add: p_def)
      from "1.IH"[OF nomatch \<open>lineNumber startLine \<noteq> 0\<close> at pl rec this] show ?thesis .
    qed
  qed
qed

lemma scanStart_no_error: "lineOf doc l \<Longrightarrow> scanStart doc l \<noteq> Inl e"
proof (induction doc l rule: scanStart.induct)
  case (1 doc startLine)
  show ?case
  proof (cases "test startRE (lineText startLine) \<or> lineNumber startLine = 0")
    case True
    then show ?thesis by auto
  next
    case False
    from "1.prems"(1) have lt: "lineNumber startLine - 1 < length doc"
      by (auto simp: lineOf_iff)
    define p where "p = \<lparr>lineNumber = lineNumber startLine - 1, lineText = doc ! (lineNumber startLine - 1)\<rparr>"
    have at: "lineAt doc (lineNumber startLine - 1) = Inr p"
      using lt by (simp add: lineAt_def p_def)
    have pl: "lineOf doc p" using at lineAt_lineOf by blast
    from False have a: "\<not> test startRE (lineText startLine)" and b: "lineNumber startLine \<noteq> 0" by auto
    from "1.IH"[OF a b at pl] have "scanStart doc p \<noteq> Inl e" .
    then show ?thesis using a b at by simp
  qed
qed

section \<open>The forward scan\<close>

lemma depthAfter_Cons: "depthAfter d (s # ls) = depthAfter (lineDepth d s) ls"
  by (simp add: depthAfter_def lineDepth_def opens_def closes_def)

lemma depthAfter_single: "depthAfter d [s] = lineDepth d s"
  by (simp add: depthAfter_def lineDepth_def opens_def closes_def)

lemma scanned_same: "e < length doc \<Longrightarrow> scanned doc e e = [doc ! e]"
  by (simp add: scanned_def take_Suc_conv_app_nth hd_drop_conv_nth  Cons_nth_drop_Suc[symmetric])

lemma scanned_step: "e < length doc \<Longrightarrow> e < k \<Longrightarrow> scanned doc e k = doc ! e # scanned doc (Suc e) k"
  by (simp add: scanned_def Cons_nth_drop_Suc[symmetric] Suc_diff_le)

declare scanEnd.simps [simp del] scanStart.simps [simp del]

lemma scanEnd_unfold:
  "lineOf doc l \<Longrightarrow>
   scanEnd doc l d =
     (if lineDepth d (lineText l) = 0 then Inr (Some l)
      else if Suc (lineNumber l) = length doc then Inr None
      else scanEnd doc \<lparr>lineNumber = Suc (lineNumber l), lineText = doc ! Suc (lineNumber l)\<rparr>
             (lineDepth d (lineText l)))"
  by (subst scanEnd.simps) (auto simp: lineDepth_def Let_def lineAt_def lineOf_iff)

lemma scanEnd_Some:
  "lineOf doc l \<Longrightarrow> scanEnd doc l d = Inr (Some l') \<Longrightarrow>
     lineOf doc l' \<and> lineNumber l \<le> lineNumber l'
     \<and> depthAfter d (scanned doc (lineNumber l) (lineNumber l')) = 0
     \<and> (\<forall>k. lineNumber l \<le> k \<and> k < lineNumber l' \<longrightarrow>
            depthAfter d (scanned doc (lineNumber l) k) \<noteq> 0)"
proof (induction "length doc - lineNumber l" arbitrary: l d)
  case 0
  then show ?case by (simp add: lineOf_iff)
next
  case (Suc n)
  let ?e = "lineNumber l"
  have e: "?e < length doc" and ltx: "lineText l = doc ! ?e"
    using Suc.prems(1) by (auto simp: lineOf_iff)
  show ?case
  proof (cases "lineDepth d (lineText l) = 0")
    case True
    then have "l' = l" using Suc.prems by (simp add: scanEnd_unfold)
    then show ?thesis
      using True Suc.prems(1) e ltx by (simp add: scanned_same depthAfter_single)
  next
    case False
    define p where "p = \<lparr>lineNumber = Suc ?e, lineText = doc ! Suc ?e\<rparr>"
    from False Suc.prems have notlast: "Suc ?e \<noteq> length doc"
      by (auto simp: scanEnd_unfold split: if_splits)
    then have pl: "lineOf doc p" using e by (simp add: lineOf_iff p_def)
    have rec: "scanEnd doc p (lineDepth d (lineText l)) = Inr (Some l')"
      using False notlast Suc.prems by (simp add: scanEnd_unfold p_def)
    have m: "n = length doc - lineNumber p" using Suc.hyps(2) by (simp add: p_def)
    from Suc.hyps(1)[OF m pl rec]
    have ih: "lineOf doc l'" "Suc ?e \<le> lineNumber l'"
      "depthAfter (lineDepth d (lineText l)) (scanned doc (Suc ?e) (lineNumber l')) = 0"
      "\<forall>k. Suc ?e \<le> k \<and> k < lineNumber l' \<longrightarrow>
          depthAfter (lineDepth d (lineText l)) (scanned doc (Suc ?e) k) \<noteq> 0"
      by (auto simp: p_def)
    have z: "depthAfter d (scanned doc ?e (lineNumber l')) = 0"
      using ih(2,3) e ltx by (simp add: scanned_step depthAfter_Cons)
    have "depthAfter d (scanned doc ?e k) \<noteq> 0" if "?e \<le> k" "k < lineNumber l'" for k
    proof (cases "k = ?e")
      case True
      then show ?thesis using False e ltx by (simp add: scanned_same depthAfter_single)
    next
      case False
      then have "?e < k" using that by simp
      then show ?thesis using ih(4) that e ltx by (simp add: scanned_step depthAfter_Cons)
    qed
    then show ?thesis using ih(1,2) z by auto
  qed
qed

lemma scanEnd_None:
  "lineOf doc l \<Longrightarrow> scanEnd doc l d = Inr None \<Longrightarrow> lineNumber l \<le> k \<Longrightarrow> k < length doc \<Longrightarrow>
     depthAfter d (scanned doc (lineNumber l) k) \<noteq> 0"
proof (induction "length doc - lineNumber l" arbitrary: l d)
  case 0
  then show ?case by (simp add: lineOf_iff)
next
  case (Suc n)
  let ?e = "lineNumber l"
  have e: "?e < length doc" and ltx: "lineText l = doc ! ?e"
    using Suc.prems(1) by (auto simp: lineOf_iff)
  have nz: "lineDepth d (lineText l) \<noteq> 0"
    using Suc.prems(1,2) by (auto simp: scanEnd_unfold split: if_splits)
  show ?case
  proof (cases "k = ?e")
    case True
    then show ?thesis using nz e ltx by (simp add: scanned_same depthAfter_single)
  next
    case False
    then have lt: "?e < k" using Suc.prems(3) by simp
    then have notlast: "Suc ?e \<noteq> length doc" using Suc.prems(4) by simp
    define p where "p = \<lparr>lineNumber = Suc ?e, lineText = doc ! Suc ?e\<rparr>"
    have pl: "lineOf doc p" using e notlast by (simp add: lineOf_iff p_def)
    have rec: "scanEnd doc p (lineDepth d (lineText l)) = Inr None"
      using nz notlast Suc.prems(1,2) by (simp add: scanEnd_unfold p_def)
    have m: "n = length doc - lineNumber p" using Suc.hyps(2) by (simp add: p_def)
    have "depthAfter (lineDepth d (lineText l)) (scanned doc (lineNumber p) k) \<noteq> 0"
      using Suc.hyps(1)[OF m pl rec _ Suc.prems(4)] lt by (simp add: p_def)
    then show ?thesis using lt e ltx by (simp add: scanned_step depthAfter_Cons p_def)
  qed
qed

lemma scanEnd_no_error: "lineOf doc l \<Longrightarrow> scanEnd doc l d \<noteq> Inl e"
proof (induction "length doc - lineNumber l" arbitrary: l d)
  case 0
  then show ?case by (simp add: lineOf_iff)
next
  case (Suc n)
  define p where "p = \<lparr>lineNumber = Suc (lineNumber l), lineText = doc ! Suc (lineNumber l)\<rparr>"
  show ?case
  proof (cases "lineDepth d (lineText l) = 0 \<or> Suc (lineNumber l) = length doc")
    case True
    then show ?thesis using Suc.prems by (auto simp: scanEnd_unfold)
  next
    case False
    then have pl: "lineOf doc p" using Suc.prems by (auto simp: lineOf_iff p_def)
    have m: "n = length doc - lineNumber p" using Suc.hyps(2) by (simp add: p_def)
    from Suc.hyps(1)[OF m pl] show ?thesis
      using False Suc.prems by (simp add: scanEnd_unfold p_def)
  qed
qed

lemma lineDepth_cases:
  "lineDepth d s = (if test startRE s then d + 1 else if test endRE s then d - 1 else d)"
  using not_both[of s] by (auto simp: lineDepth_def)

lemma scanEnd_endRE:
  "lineOf doc l \<Longrightarrow> 1 \<le> d \<Longrightarrow> scanEnd doc l d = Inr (Some l') \<Longrightarrow> test endRE (lineText l')"
proof (induction "length doc - lineNumber l" arbitrary: l d)
  case 0
  then show ?case by (simp add: lineOf_iff)
next
  case (Suc n)
  define p where "p = \<lparr>lineNumber = Suc (lineNumber l), lineText = doc ! Suc (lineNumber l)\<rparr>"
  show ?case
  proof (cases "lineDepth d (lineText l) = 0")
    case True
    then have "l' = l" using Suc.prems by (simp add: scanEnd_unfold)
    moreover have "test endRE (lineText l)"
      using True Suc.prems(2) by (auto simp: lineDepth_cases split: if_splits)
    ultimately show ?thesis by simp
  next
    case False
    then have notlast: "Suc (lineNumber l) \<noteq> length doc"
      using Suc.prems by (auto simp: scanEnd_unfold split: if_splits)
    then have pl: "lineOf doc p" using Suc.prems(1) by (auto simp: lineOf_iff p_def)
    have rec: "scanEnd doc p (lineDepth d (lineText l)) = Inr (Some l')"
      using False notlast Suc.prems by (simp add: scanEnd_unfold p_def)
    have m: "n = length doc - lineNumber p" using Suc.hyps(2) by (simp add: p_def)
    have pos: "1 \<le> lineDepth d (lineText l)"
      using False Suc.prems(2) by (auto simp: lineDepth_cases split: if_splits)
    from Suc.hyps(1)[OF m pl pos rec] show ?thesis .
  qed
qed

section \<open>Region mode\<close>

lemma depthAfter_zero_iff: "depthAfter 1 ls = 0 \<longleftrightarrow> closes ls = 1 + opens ls"
  by (auto simp: depthAfter_def)

lemma newRange_lines:
  "lineNumber a \<le> lineNumber b \<Longrightarrow>
   newRange (lineRangeStart a) (lineRangeEnd b) =
     \<lparr>range_start = \<lparr>line = lineNumber a, character = 0\<rparr>,
      range_end = \<lparr>line = lineNumber b, character = length (lineText b)\<rparr>\<rparr>"
  by (auto simp: newRange_def isBefore_def lineRangeStart_def lineRangeEnd_def)

lemma validEditor_lines:
  "validEditor ed \<Longrightarrow>
     line (range_start (selection ed)) \<le> line (range_end (selection ed))
     \<and> line (range_end (selection ed)) < length (document ed)"
  by (auto simp: validEditor_def isBefore_def)

lemma region_cases:
  assumes v: "validEditor ed"
  shows "lineOf (document ed)
           \<lparr>lineNumber = line (range_start (selection ed)),
            lineText = document ed ! line (range_start (selection ed))\<rparr>"
    and "lineOf (document ed)
           \<lparr>lineNumber = line (range_end (selection ed)),
            lineText = document ed ! line (range_end (selection ed))\<rparr>"
    and "line (range_start (selection ed)) \<le> line (range_end (selection ed))"
    and "currentDocumentRegion (Some ed) =
       (case scanStart (document ed)
               \<lparr>lineNumber = line (range_start (selection ed)),
                lineText = document ed ! line (range_start (selection ed))\<rparr> of
          Inl x \<Rightarrow> Inl x
        | Inr None \<Rightarrow> Inr None
        | Inr (Some startLine) \<Rightarrow>
            (case scanEnd (document ed)
                    \<lparr>lineNumber = line (range_end (selection ed)),
                     lineText = document ed ! line (range_end (selection ed))\<rparr> 1 of
               Inl x \<Rightarrow> Inl x
             | Inr None \<Rightarrow> Inr None
             | Inr (Some endLine) \<Rightarrow>
                 Inr (Some (newRange (lineRangeStart startLine) (lineRangeEnd endLine)))))"
  using validEditor_lines[OF v]
  by (auto simp: lineOf_iff currentDocumentRegion_def lineAt_def)

lemma region_Some:
  assumes v: "validEditor ed" and r: "currentDocumentRegion (Some ed) = Inr (Some rng)"
  shows "\<exists>i j. i \<le> j \<and> j < length (document ed)
            \<and> test startRE (document ed ! i) \<and> test endRE (document ed ! j)
            \<and> rng = \<lparr>range_start = \<lparr>line = i, character = 0\<rparr>,
                     range_end = \<lparr>line = j, character = length (document ed ! j)\<rparr>\<rparr>"
proof -
  let ?doc = "document ed"
  let ?s = "line (range_start (selection ed))"
  let ?e = "line (range_end (selection ed))"
  let ?ls = "\<lparr>lineNumber = ?s, lineText = ?doc ! ?s\<rparr>"
  let ?le = "\<lparr>lineNumber = ?e, lineText = ?doc ! ?e\<rparr>"
  note c = region_cases[OF v]
  from r c(4) obtain a where a: "scanStart ?doc ?ls = Inr (Some a)"
    by (auto split: sum.splits option.splits)
  from r c(4) a obtain b where b: "scanEnd ?doc ?le 1 = Inr (Some b)"
    and rng: "rng = newRange (lineRangeStart a) (lineRangeEnd b)"
    by (auto split: sum.splits option.splits)
  from scanStart_Some[OF c(1) a] have A: "lineOf ?doc a" "lineNumber a \<le> ?s" "test startRE (lineText a)"
    by auto
  from scanEnd_Some[OF c(2) b] have B: "lineOf ?doc b" "?e \<le> lineNumber b" by auto
  from scanEnd_endRE[OF c(2) _ b] have B3: "test endRE (lineText b)" by simp
  have le: "lineNumber a \<le> lineNumber b" using A(2) B(2) c(3) by simp
  show ?thesis
    using A(1,3) B(1) B3 le rng
    by (intro exI[of _ "lineNumber a"] exI[of _ "lineNumber b"])
       (auto simp: newRange_lines lineOf_iff)
qed

lemma region_no_error:
  assumes v: "validEditor ed"
  shows "currentDocumentRegion (Some ed) \<noteq> Inl x"
  using region_cases[OF v] scanStart_no_error scanEnd_no_error
  by (auto split: sum.splits option.splits)

lemma region_no_opening:
  assumes v: "validEditor ed"
    and n: "\<forall>i. i \<le> line (range_start (selection ed)) \<longrightarrow> \<not> test startRE (document ed ! i)"
  shows "currentDocumentRegion (Some ed) = Inr None"
proof -
  note c = region_cases[OF v]
  let ?ls = "\<lparr>lineNumber = line (range_start (selection ed)),
               lineText = document ed ! line (range_start (selection ed))\<rparr>"
  have "scanStart (document ed) ?ls \<noteq> Inr (Some a)" for a
  proof
    assume a: "scanStart (document ed) ?ls = Inr (Some a)"
    from scanStart_Some[OF c(1) a] n show False by (auto simp: lineOf_iff)
  qed
  moreover have "scanStart (document ed) ?ls \<noteq> Inl x" for x
    using scanStart_no_error[OF c(1)] .
  ultimately have "scanStart (document ed) ?ls = Inr None"
    by (cases "scanStart (document ed) ?ls") (auto intro: option.exhaust)
  then show ?thesis using c(4) by simp
qed

lemma region_no_closing:
  assumes v: "validEditor ed"
    and n: "\<forall>j. line (range_end (selection ed)) \<le> j \<and> j < length (document ed)
               \<longrightarrow> \<not> test endRE (document ed ! j)"
  shows "currentDocumentRegion (Some ed) = Inr None"
proof (rule ccontr)
  assume "currentDocumentRegion (Some ed) \<noteq> Inr None"
  then obtain rng where "currentDocumentRegion (Some ed) = Inr (Some rng)"
    using region_no_error[OF v] by (cases "currentDocumentRegion (Some ed)") auto
  note r = this
  note c = region_cases[OF v]
  let ?le = "\<lparr>lineNumber = line (range_end (selection ed)),
               lineText = document ed ! line (range_end (selection ed))\<rparr>"
  from r c(4) obtain b where b: "scanEnd (document ed) ?le 1 = Inr (Some b)"
    by (auto split: sum.splits option.splits)
  from scanEnd_Some[OF c(2) b] have B: "lineOf (document ed) b" "line (range_end (selection ed)) \<le> lineNumber b" by auto
  from scanEnd_endRE[OF c(2) _ b] have "test endRE (lineText b)" by simp
  with B n show False by (auto simp: lineOf_iff)
qed

lemma region_no_balance:
  assumes v: "validEditor ed"
    and n: "\<forall>k. line (range_end (selection ed)) \<le> k \<and> k < length (document ed) \<longrightarrow>
              closes (scanned (document ed) (line (range_end (selection ed))) k)
                \<noteq> 1 + opens (scanned (document ed) (line (range_end (selection ed))) k)"
  shows "currentDocumentRegion (Some ed) = Inr None"
proof (rule ccontr)
  assume "currentDocumentRegion (Some ed) \<noteq> Inr None"
  then obtain rng where r: "currentDocumentRegion (Some ed) = Inr (Some rng)"
    using region_no_error[OF v] by (cases "currentDocumentRegion (Some ed)") auto
  note c = region_cases[OF v]
  let ?e = "line (range_end (selection ed))"
  let ?le = "\<lparr>lineNumber = ?e, lineText = document ed ! ?e\<rparr>"
  from r c(4) obtain b where b: "scanEnd (document ed) ?le 1 = Inr (Some b)"
    by (auto split: sum.splits option.splits)
  from scanEnd_Some[OF c(2) b]
  have "lineOf (document ed) b" "?e \<le> lineNumber b"
    "depthAfter 1 (scanned (document ed) ?e (lineNumber b)) = 0"
    by auto
  with n show False by (auto simp: lineOf_iff depthAfter_zero_iff)
qed

lemma valid_cursorOn: "n < length doc \<Longrightarrow> validEditor (cursorOn doc n)"
  by (simp add: validEditor_def cursorOn_def isBefore_def)

lemma document_cursorOn: "document (cursorOn doc n) = doc"
  by (simp add: cursorOn_def)

lemma test_examples [simp]: "\<not> test startRE ''x;''" "\<not> test endRE ''x;''" "test startRE ''(''" "\<not> test endRE ''(''"
  "\<not> test startRE '')''" "test endRE '')''"
  by code_simp+

text \<open>
  Claim C5. For every editor whose selection lies in its document, region mode returns
  either no span or a span from the start of a line whose text matches the opening
  pattern to the end of a line whose text matches the closing pattern, and it never
  throws. When no line at or above the selection's start line matches the opening
  pattern the result is no span; when no line from the selection's end line to the end
  of the document matches the closing pattern the result is no span, and so it is when
  no line from there on closes the region: when for no such line the lines scanned up
  to it hold one closing line more than opening lines. For the lines
  \<^verbatim>\<open>(\<close>, \<^verbatim>\<open>1 + 1;\<close>, \<^verbatim>\<open>)\<close> and a selection inside the middle line the span runs from the
  start of line 0 to the end of line 2.
\<close>

theorem region_span_or_none:
  "(validEditor ed \<longrightarrow>
      (currentDocumentRegion (Some ed) = Inr None
       \<or> (\<exists>i j. i \<le> j \<and> j < length (document ed)
              \<and> test startRE (document ed ! i) \<and> test endRE (document ed ! j)
              \<and> currentDocumentRegion (Some ed) =
                  Inr (Some \<lparr>range_start = \<lparr>line = i, character = 0\<rparr>,
                             range_end = \<lparr>line = j, character = length (document ed ! j)\<rparr>\<rparr>))))
   \<and> (validEditor ed
        \<and> (\<forall>i. i \<le> line (range_start (selection ed)) \<longrightarrow> \<not> test startRE (document ed ! i))
        \<longrightarrow> currentDocumentRegion (Some ed) = Inr None)
   \<and> (validEditor ed
        \<and> (\<forall>j. line (range_end (selection ed)) \<le> j \<and> j < length (document ed)
               \<longrightarrow> \<not> test endRE (document ed ! j))
        \<longrightarrow> currentDocumentRegion (Some ed) = Inr None)
   \<and> (validEditor ed
        \<and> (\<forall>j. line (range_end (selection ed)) \<le> j \<and> j < length (document ed) \<longrightarrow>
              closes (scanned (document ed) (line (range_end (selection ed))) j)
                \<noteq> 1 + opens (scanned (document ed) (line (range_end (selection ed))) j))
        \<longrightarrow> currentDocumentRegion (Some ed) = Inr None)
   \<and> currentDocumentRegion
       (Some \<lparr>editorId = k, document = [''('', ''1 + 1;'', '')''],
              selection = \<lparr>range_start = \<lparr>line = 1, character = a\<rparr>,
                           range_end = \<lparr>line = 1, character = b\<rparr>\<rparr>\<rparr>)
     = Inr (Some \<lparr>range_start = \<lparr>line = 0, character = 0\<rparr>,
                  range_end = \<lparr>line = 2, character = 1\<rparr>\<rparr>)"
proof (intro conjI impI)
  assume v: "validEditor ed"
  show "currentDocumentRegion (Some ed) = Inr None
       \<or> (\<exists>i j. i \<le> j \<and> j < length (document ed)
              \<and> test startRE (document ed ! i) \<and> test endRE (document ed ! j)
              \<and> currentDocumentRegion (Some ed) =
                  Inr (Some \<lparr>range_start = \<lparr>line = i, character = 0\<rparr>,
                             range_end = \<lparr>line = j, character = length (document ed ! j)\<rparr>\<rparr>))"
  proof (cases "currentDocumentRegion (Some ed)")
    case (Inl x)
    then show ?thesis using region_no_error[OF v] by simp
  next
    case (Inr r)
    show ?thesis
    proof (cases r)
      case None
      then show ?thesis using Inr by simp
    next
      case (Some rng)
      then have "currentDocumentRegion (Some ed) = Inr (Some rng)" using Inr by simp
      from region_Some[OF v this] this show ?thesis by auto
    qed
  qed
next
  assume "validEditor ed
        \<and> (\<forall>i. i \<le> line (range_start (selection ed)) \<longrightarrow> \<not> test startRE (document ed ! i))"
  then show "currentDocumentRegion (Some ed) = Inr None"
    using region_no_opening by blast
next
  assume "validEditor ed
        \<and> (\<forall>j. line (range_end (selection ed)) \<le> j \<and> j < length (document ed)
               \<longrightarrow> \<not> test endRE (document ed ! j))"
  then show "currentDocumentRegion (Some ed) = Inr None"
    using region_no_closing by blast
next
  assume "validEditor ed
        \<and> (\<forall>j. line (range_end (selection ed)) \<le> j \<and> j < length (document ed) \<longrightarrow>
              closes (scanned (document ed) (line (range_end (selection ed))) j)
                \<noteq> 1 + opens (scanned (document ed) (line (range_end (selection ed))) j))"
  then show "currentDocumentRegion (Some ed) = Inr None"
    using region_no_balance by blast
next
  show "currentDocumentRegion
       (Some \<lparr>editorId = k, document = [''('', ''1 + 1;'', '')''],
              selection = \<lparr>range_start = \<lparr>line = 1, character = a\<rparr>,
                           range_end = \<lparr>line = 1, character = b\<rparr>\<rparr>\<rparr>)
     = Inr (Some \<lparr>range_start = \<lparr>line = 0, character = 0\<rparr>,
                  range_end = \<lparr>line = 2, character = 1\<rparr>\<rparr>)"
    by code_simp
qed

theorem region_span_or_none_witness:
  "validEditor (cursorOn [''('', ''x;'', '')''] 1)
   \<and> (\<exists>i j. i \<le> j \<and> test startRE ([''('', ''x;'', '')''] ! i) \<and> test endRE ([''('', ''x;'', '')''] ! j)
         \<and> currentDocumentRegion (Some (cursorOn [''('', ''x;'', '')''] 1)) =
             Inr (Some \<lparr>range_start = \<lparr>line = i, character = 0\<rparr>,
                        range_end = \<lparr>line = j, character = length ([''('', ''x;'', '')''] ! j)\<rparr>\<rparr>))
   \<and> validEditor (cursorOn [''x;'', '')''] 0)
   \<and> currentDocumentRegion (Some (cursorOn [''x;'', '')''] 0)) = Inr None
   \<and> validEditor (cursorOn [''('', ''x;''] 1)
   \<and> currentDocumentRegion (Some (cursorOn [''('', ''x;''] 1)) = Inr None"
proof -
  have v1: "validEditor (cursorOn [''('', ''x;'', '')''] 1)" by (simp add: valid_cursorOn)
  have v2: "validEditor (cursorOn [''x;'', '')''] 0)" by (simp add: valid_cursorOn)
  have v3: "validEditor (cursorOn [''('', ''x;''] 1)" by (simp add: valid_cursorOn)
  have n1: "currentDocumentRegion (Some (cursorOn [''('', ''x;'', '')''] 1)) \<noteq> Inr None"
    by code_simp
  have h2: "\<forall>i. i \<le> line (range_start (selection (cursorOn [''x;'', '')''] 0)))
              \<longrightarrow> \<not> test startRE (document (cursorOn [''x;'', '')''] 0) ! i)"
    by (simp add: cursorOn_def)
  have h3: "\<forall>j. line (range_end (selection (cursorOn [''('', ''x;''] 1))) \<le> j
                 \<and> j < length (document (cursorOn [''('', ''x;''] 1))
              \<longrightarrow> \<not> test endRE (document (cursorOn [''('', ''x;''] 1) ! j)"
    by (auto simp: cursorOn_def less_Suc_eq)
  from region_span_or_none[of "cursorOn [''('', ''x;'', '')''] 1", THEN conjunct1, rule_format, OF v1] n1
  have c1: "\<exists>i j. i \<le> j \<and> test startRE ([''('', ''x;'', '')''] ! i) \<and> test endRE ([''('', ''x;'', '')''] ! j)
         \<and> currentDocumentRegion (Some (cursorOn [''('', ''x;'', '')''] 1)) =
             Inr (Some \<lparr>range_start = \<lparr>line = i, character = 0\<rparr>,
                        range_end = \<lparr>line = j, character = length ([''('', ''x;'', '')''] ! j)\<rparr>\<rparr>)"
    unfolding document_cursorOn by blast
  from region_span_or_none[of "cursorOn [''x;'', '')''] 0"] v2 h2
  have c2: "currentDocumentRegion (Some (cursorOn [''x;'', '')''] 0)) = Inr None" by blast
  from region_span_or_none[of "cursorOn [''('', ''x;''] 1"] v3 h3
  have c3: "currentDocumentRegion (Some (cursorOn [''('', ''x;''] 1)) = Inr None" by blast
  show ?thesis using v1 v2 v3 c1 c2 c3 by blast
qed

text \<open>
  Claim C9. The forward scan applies its two tests to the selection's end line itself:
  when that line matches the opening pattern the counter is 2 after it, before any
  later line is examined. For the lines \<^verbatim>\<open>(\<close>, \<^verbatim>\<open>x;\<close>, \<^verbatim>\<open>)\<close> and a selection inside
  line 0 region mode returns no span: the counter is 2 after line 0, the document has
  one closing line, and the counter is 1 after the last line.
\<close>

theorem selection_on_opening_line:
  "(lineOf doc l \<and> test startRE (lineText l) \<longrightarrow>
      lineDepth 1 (lineText l) = 2
      \<and> scanEnd doc l 1 =
          (if Suc (lineNumber l) = length doc then Inr None
           else scanEnd doc \<lparr>lineNumber = Suc (lineNumber l),
                             lineText = doc ! Suc (lineNumber l)\<rparr> 2))
   \<and> closes [''('', ''x;'', '')''] = 1
   \<and> depthAfter 1 (scanned [''('', ''x;'', '')''] 0 0) = 2
   \<and> depthAfter 1 (scanned [''('', ''x;'', '')''] 0 2) = 1
   \<and> currentDocumentRegion
       (Some \<lparr>editorId = k, document = [''('', ''x;'', '')''],
              selection = \<lparr>range_start = \<lparr>line = 0, character = a\<rparr>,
                           range_end = \<lparr>line = 0, character = b\<rparr>\<rparr>\<rparr>)
     = Inr None"
proof (intro conjI impI)
  assume h: "lineOf doc l \<and> test startRE (lineText l)"
  then show d: "lineDepth 1 (lineText l) = 2"
    by (simp add: lineDepth_cases)
  show "scanEnd doc l 1 =
          (if Suc (lineNumber l) = length doc then Inr None
           else scanEnd doc \<lparr>lineNumber = Suc (lineNumber l),
                             lineText = doc ! Suc (lineNumber l)\<rparr> 2)"
    using h d by (simp add: scanEnd_unfold)
next
  show "closes [''('', ''x;'', '')''] = 1"
    by (simp add: closes_def)
next
  show "depthAfter 1 (scanned [''('', ''x;'', '')''] 0 0) = 2"
    by (simp add: depthAfter_def scanned_def opens_def closes_def)
next
  show "depthAfter 1 (scanned [''('', ''x;'', '')''] 0 2) = 1"
    by (simp add: depthAfter_def scanned_def opens_def closes_def)
next
  show "currentDocumentRegion
       (Some \<lparr>editorId = k, document = [''('', ''x;'', '')''],
              selection = \<lparr>range_start = \<lparr>line = 0, character = a\<rparr>,
                           range_end = \<lparr>line = 0, character = b\<rparr>\<rparr>\<rparr>)
     = Inr None"
    by code_simp
qed

theorem selection_on_opening_line_witness:
  "lineOf [''('', ''x;'', '')''] \<lparr>lineNumber = 0, lineText = ''(''\<rparr>
   \<and> test startRE ''(''
   \<and> scanEnd [''('', ''x;'', '')''] \<lparr>lineNumber = 0, lineText = ''(''\<rparr> 1
       = scanEnd [''('', ''x;'', '')''] \<lparr>lineNumber = 1, lineText = ''x;''\<rparr> 2
   \<and> scanEnd [''('', ''x;'', '')''] \<lparr>lineNumber = 0, lineText = ''(''\<rparr> 1 = Inr None"
proof -
  have l: "lineOf [''('', ''x;'', '')''] \<lparr>lineNumber = 0, lineText = ''(''\<rparr>"
    by (simp add: lineOf_iff)
  have t: "test startRE (lineText \<lparr>lineNumber = 0, lineText = ''(''\<rparr>)" by simp
  from selection_on_opening_line[of "[''('', ''x;'', '')'']" "\<lparr>lineNumber = 0, lineText = ''(''\<rparr>",
      THEN conjunct1, rule_format, OF conjI[OF l t], THEN conjunct2]
  have s: "scanEnd [''('', ''x;'', '')''] \<lparr>lineNumber = 0, lineText = ''(''\<rparr> 1
       = scanEnd [''('', ''x;'', '')''] \<lparr>lineNumber = 1, lineText = ''x;''\<rparr> 2"
    by simp
  have n: "scanEnd [''('', ''x;'', '')''] \<lparr>lineNumber = 1, lineText = ''x;''\<rparr> 2 = Inr None"
    by code_simp
  show ?thesis using l s n by simp
qed

text \<open>
  Claim C4, as stated, fails. In the lines \<^verbatim>\<open>(\<close>, \<^verbatim>\<open>x;\<close>, \<^verbatim>\<open>)\<close>, \<^verbatim>\<open>)\<close> one line matches the
  opening pattern, it stands before the first closing line (line 2), and with the
  cursor on line 0 the forward scan stops at line 3, after two closing lines.
\<close>

theorem nesting_count_counterexample:
  "opens (scanned [''('', ''x;'', '')'', '')''] 0 1) = 1
   \<and> closes (scanned [''('', ''x;'', '')'', '')''] 0 1) = 0
   \<and> test endRE ([''('', ''x;'', '')'', '')''] ! 2)
   \<and> opens [''('', ''x;'', '')'', '')''] = 1
   \<and> scanEnd [''('', ''x;'', '')'', '')''] \<lparr>lineNumber = 0, lineText = ''(''\<rparr> 1
       = Inr (Some \<lparr>lineNumber = 3, lineText = '')''\<rparr>)
   \<and> closes (scanned [''('', ''x;'', '')'', '')''] 0 3) = 2
   \<and> currentDocumentRegion (Some (cursorOn [''('', ''x;'', '')'', '')''] 0))
       = Inr (Some \<lparr>range_start = \<lparr>line = 0, character = 0\<rparr>,
                    range_end = \<lparr>line = 3, character = 1\<rparr>\<rparr>)"
proof (intro conjI)
  show "scanEnd [''('', ''x;'', '')'', '')''] \<lparr>lineNumber = 0, lineText = ''(''\<rparr> 1
       = Inr (Some \<lparr>lineNumber = 3, lineText = '')''\<rparr>)"
    by code_simp
  show "currentDocumentRegion (Some (cursorOn [''('', ''x;'', '')'', '')''] 0))
       = Inr (Some \<lparr>range_start = \<lparr>line = 0, character = 0\<rparr>,
                    range_end = \<lparr>line = 3, character = 1\<rparr>\<rparr>)"
    by code_simp
qed (simp_all add: opens_def closes_def scanned_def)

text \<open>
  Claim C4, amended. On every line it visits the forward scan tests the opening
  pattern (incrementing the counter on a match), then the closing pattern
  (decrementing on a match), in two separate statements, then stops if the counter is
  0, returns no span on the last line of the document, and otherwise goes to the next
  line. No text matches both patterns. Started with the counter at 1 on the
  selection's end line, the scan stops at the first line up to which the scanned lines
  hold one closing line more than opening lines: with \<open>k\<close> opening lines among the
  scanned lines it consumes \<open>k + 1\<close> closing lines; and it does stop when there is
  such a line.
\<close>

theorem forward_scan_nesting:
  "(lineOf doc l \<longrightarrow>
      scanEnd doc l d =
        (if lineDepth d (lineText l) = 0 then Inr (Some l)
         else if Suc (lineNumber l) = length doc then Inr None
         else scanEnd doc \<lparr>lineNumber = Suc (lineNumber l),
                           lineText = doc ! Suc (lineNumber l)\<rparr>
                (lineDepth d (lineText l))))
   \<and> \<not> (test startRE w \<and> test endRE w)
   \<and> (lineOf doc l \<and> scanEnd doc l 1 = Inr (Some l') \<longrightarrow>
        lineOf doc l' \<and> lineNumber l \<le> lineNumber l'
        \<and> closes (scanned doc (lineNumber l) (lineNumber l'))
            = 1 + opens (scanned doc (lineNumber l) (lineNumber l'))
        \<and> (\<forall>k. lineNumber l \<le> k \<and> k < lineNumber l' \<longrightarrow>
              closes (scanned doc (lineNumber l) k) \<noteq> 1 + opens (scanned doc (lineNumber l) k)))
   \<and> (lineOf doc l \<and> lineNumber l \<le> k \<and> k < length doc
        \<and> closes (scanned doc (lineNumber l) k) = 1 + opens (scanned doc (lineNumber l) k) \<longrightarrow>
        (\<exists>l'. scanEnd doc l 1 = Inr (Some l') \<and> lineNumber l' \<le> k))"
proof (intro conjI impI)
  assume "lineOf doc l"
  then show "scanEnd doc l d =
        (if lineDepth d (lineText l) = 0 then Inr (Some l)
         else if Suc (lineNumber l) = length doc then Inr None
         else scanEnd doc \<lparr>lineNumber = Suc (lineNumber l),
                           lineText = doc ! Suc (lineNumber l)\<rparr>
                (lineDepth d (lineText l)))"
    by (rule scanEnd_unfold)
next
  show "\<not> (test startRE w \<and> test endRE w)" by (rule not_both)
next
  assume h: "lineOf doc l \<and> scanEnd doc l 1 = Inr (Some l')"
  then have l: "lineOf doc l" and s: "scanEnd doc l 1 = Inr (Some l')" by auto
  note r = scanEnd_Some[OF l s]
  from r show "lineOf doc l'" by simp
  from r show "lineNumber l \<le> lineNumber l'" by simp
  from r show "closes (scanned doc (lineNumber l) (lineNumber l'))
            = 1 + opens (scanned doc (lineNumber l) (lineNumber l'))"
    by (simp add: depthAfter_zero_iff)
  from r show "\<forall>k. lineNumber l \<le> k \<and> k < lineNumber l' \<longrightarrow>
              closes (scanned doc (lineNumber l) k) \<noteq> 1 + opens (scanned doc (lineNumber l) k)"
    by (simp add: depthAfter_zero_iff)
next
  assume h: "lineOf doc l \<and> lineNumber l \<le> k \<and> k < length doc
        \<and> closes (scanned doc (lineNumber l) k) = 1 + opens (scanned doc (lineNumber l) k)"
  then have l: "lineOf doc l" and k: "lineNumber l \<le> k" "k < length doc"
    and z: "depthAfter 1 (scanned doc (lineNumber l) k) = 0"
    by (auto simp: depthAfter_zero_iff)
  have "scanEnd doc l 1 \<noteq> Inr None"
    using scanEnd_None[OF l _ k] z by blast
  moreover have "scanEnd doc l 1 \<noteq> Inl x" for x
    using scanEnd_no_error[OF l] .
  ultimately obtain l' where s: "scanEnd doc l 1 = Inr (Some l')"
    by (cases "scanEnd doc l 1") auto
  have "lineNumber l' \<le> k"
  proof (rule ccontr)
    assume "\<not> lineNumber l' \<le> k"
    then have "k < lineNumber l'" by simp
    with scanEnd_Some[OF l s] k z show False by blast
  qed
  with s show "\<exists>l'. scanEnd doc l 1 = Inr (Some l') \<and> lineNumber l' \<le> k" by blast
qed

theorem forward_scan_nesting_witness:
  "lineOf [''('', ''('', '')'', '')''] \<lparr>lineNumber = 1, lineText = ''(''\<rparr>
   \<and> scanEnd [''('', ''('', '')'', '')''] \<lparr>lineNumber = 1, lineText = ''(''\<rparr> 1
       = Inr (Some \<lparr>lineNumber = 3, lineText = '')''\<rparr>)
   \<and> closes (scanned [''('', ''('', '')'', '')''] 1 3)
       = 1 + opens (scanned [''('', ''('', '')'', '')''] 1 3)
   \<and> opens (scanned [''('', ''('', '')'', '')''] 1 3) = 1
   \<and> closes (scanned [''('', ''('', '')'', '')''] 1 2)
       \<noteq> 1 + opens (scanned [''('', ''('', '')'', '')''] 1 2)"
proof -
  let ?doc = "[''('', ''('', '')'', '')'']"
  let ?l = "\<lparr>lineNumber = 1, lineText = ''(''\<rparr>"
  let ?l' = "\<lparr>lineNumber = 3, lineText = '')''\<rparr>"
  have l: "lineOf ?doc ?l" by (simp add: lineOf_iff)
  have s: "scanEnd ?doc ?l 1 = Inr (Some ?l')" by code_simp
  note t = forward_scan_nesting[of ?doc ?l _ _ ?l', THEN conjunct2, THEN conjunct2, THEN conjunct1,
      rule_format, OF conjI[OF l s]]
  from t have a: "closes (scanned ?doc 1 3) = 1 + opens (scanned ?doc 1 3)" by simp
  from t have "\<forall>k. 1 \<le> k \<and> k < 3 \<longrightarrow> closes (scanned ?doc 1 k) \<noteq> 1 + opens (scanned ?doc 1 k)"
    by simp
  then have b: "closes (scanned ?doc 1 2) \<noteq> 1 + opens (scanned ?doc 1 2)" by simp
  have c: "opens (scanned ?doc 1 3) = 1" by (simp add: opens_def scanned_def)
  show ?thesis using l s a b c by blast
qed

section \<open>The generation counter\<close>

lemma uid_setDecorations [simp]: "evaluateUID (setDecorations e d ds s) = evaluateUID s"
  by (simp add: setDecorations_def)

lemma uid_setTimeout [simp]: "evaluateUID (setTimeout cb ms s) = evaluateUID s"
  by (simp add: setTimeout_def)

lemma uid_await [simp]: "evaluateUID (await p k s) = evaluateUID s"
  by (simp add: await_def)

lemma uid_onStartEvaluate:
  "evaluateUID (snd (onStartEvaluate ed rng s)) = evaluateUID s + 1"
  "currentEvaluateUID (fst (onStartEvaluate ed rng s)) = evaluateUID s + 1"
  by (simp_all add: onStartEvaluate_def Let_def)

lemma closure_onStartEvaluate:
  "fst (onStartEvaluate ed rng s) =
     \<lparr>textEditor = ed, capturedRange = rng, currentEvaluateUID = evaluateUID s + 1,
      evaluateFlashDelay = FlashDelay (evaluateUID s + 1),
      postEvaluateFlashDelay = PostFlashDelay (evaluateUID s + 1)\<rparr>"
  by (simp add: onStartEvaluate_def Let_def)

lemma uid_finishFunc [simp]: "evaluateUID (finishFunc f t b s) = evaluateUID s"
  by (simp add: finishFunc_def onEndEvaluate_def)

lemma uid_onResponse [simp]: "evaluateUID (onResponse f r s) = evaluateUID s"
  by (simp add: onResponse_def split: option.splits prod.splits)

lemma uid_runCallback [simp]: "evaluateUID (runCallback cb s) = evaluateUID s"
  by (cases cb) simp_all

lemma uid_runContinuation [simp]: "evaluateUID (runContinuation k s) = evaluateUID s"
  by (cases k) (simp_all add: Let_def)

lemma evaluateString_Some:
  "evaluateString (Some ed) rng s =
     (snd (onStartEvaluate (editorId ed) rng s))
       \<lparr>requests := requests (snd (onStartEvaluate (editorId ed) rng s))
                      @ [fst (onStartEvaluate (editorId ed) rng s)]\<rparr>"
  by (simp add: evaluateString_def case_prod_beta)

lemma uid_evaluateString [simp]:
  "evaluateUID (evaluateString a rng s) = evaluateUID s + (if a = None then 0 else 1)"
proof (cases a)
  case None
  then show ?thesis by (simp add: evaluateString_def)
next
  case (Some ed)
  then show ?thesis by (simp add: evaluateString_Some uid_onStartEvaluate)
qed

lemma uid_step:
  "evaluateUID (step ev s) = evaluateUID s + (if startsInvocation ev then 1 else 0)"
proof (cases ev)
  case (Evaluate a rng)
  then show ?thesis by (cases a) simp_all
qed simp_all

lemma uid_run: "evaluateUID (run evs s) = evaluateUID s + length (filter startsInvocation evs)"
  by (induction evs arbitrary: s) (simp_all add: uid_step)

lemma uid_run_mono: "evaluateUID s \<le> evaluateUID (run evs s)"
  by (simp add: uid_run)

lemma startsInvocation_iff: "startsInvocation ev \<longleftrightarrow> (\<exists>ed rng. ev = Evaluate (Some ed) rng)"
  by (cases ev rule: startsInvocation.cases) simp_all

lemma generations_other:
  "\<not> startsInvocation ev \<Longrightarrow> generations (ev # evs) s = generations evs (step ev s)"
  by (cases ev rule: startsInvocation.cases) simp_all

lemma generations_bounds:
  "g \<in> set (generations evs s) \<Longrightarrow> evaluateUID s < g \<and> g \<le> evaluateUID (run evs s)"
proof (induction evs arbitrary: s)
  case Nil
  then show ?case by simp
next
  case (Cons ev evs)
  show ?case
  proof (cases "startsInvocation ev")
    case True
    then obtain ed rng where ev: "ev = Evaluate (Some ed) rng"
      by (auto simp: startsInvocation_iff)
    have u: "evaluateUID (step ev s) = evaluateUID s + 1" using True by (simp add: uid_step)
    from Cons.prems ev consider "g = evaluateUID s + 1" | "g \<in> set (generations evs (step ev s))"
      by (auto simp: uid_onStartEvaluate)
    then show ?thesis
    proof cases
      case 1
      have "evaluateUID (step ev s) \<le> evaluateUID (run evs (step ev s))" by (rule uid_run_mono)
      with 1 u show ?thesis by simp
    next
      case 2
      from Cons.IH[OF 2] u show ?thesis by simp
    qed
  next
    case False
    then have "g \<in> set (generations evs (step ev s))"
      using Cons.prems by (simp add: generations_other)
    from Cons.IH[OF this] show ?thesis
      using False uid_step[of ev s] by simp
  qed
qed

lemma generations_sorted: "sorted_wrt (<) (generations evs s)"
proof (induction evs arbitrary: s)
  case Nil
  then show ?case by simp
next
  case (Cons ev evs)
  show ?case
  proof (cases "startsInvocation ev")
    case True
    then obtain ed rng where ev: "ev = Evaluate (Some ed) rng"
      by (auto simp: startsInvocation_iff)
    have u: "evaluateUID (step ev s) = evaluateUID s + 1" using True by (simp add: uid_step)
    have "evaluateUID s + 1 < g" if "g \<in> set (generations evs (step ev s))" for g
      using generations_bounds[OF that] u by simp
    moreover have "generations (ev # evs) s = (evaluateUID s + 1) # generations evs (step ev s)"
      using ev by (simp add: uid_onStartEvaluate)
    ultimately show ?thesis using Cons.IH[of "step ev s"] by simp
  next
    case False
    then show ?thesis using Cons.IH by (simp add: generations_other)
  qed
qed

lemma generations_length: "length (generations evs s) = length (filter startsInvocation evs)"
proof (induction evs arbitrary: s)
  case Nil
  then show ?case by simp
next
  case (Cons ev evs)
  then show ?case
    by (cases "startsInvocation ev") (auto simp: startsInvocation_iff generations_other)
qed

lemma finishFunc_stale: "currentEvaluateUID f < evaluateUID s \<Longrightarrow> finishFunc f t b s = s"
  by (simp add: finishFunc_def)

lemma onResponse_stale: "currentEvaluateUID f < evaluateUID s \<Longrightarrow> onResponse f r s = s"
  by (simp add: onResponse_def finishFunc_stale split: option.splits prod.splits)

lemma timeout_stale: "g < evaluateUID s \<Longrightarrow> runCallback (ClearOnTimeout ed g) s = s"
  by simp

lemma stale_after_later_invocation:
  "currentEvaluateUID (fst (onStartEvaluate ed rA s0))
     < evaluateUID (run evs2 (snd (onStartEvaluate ed' rB (run evs1 (snd (onStartEvaluate ed rA s0))))))"
proof -
  let ?sA = "snd (onStartEvaluate ed rA s0)"
  let ?sB = "snd (onStartEvaluate ed' rB (run evs1 ?sA))"
  have "currentEvaluateUID (fst (onStartEvaluate ed rA s0)) = evaluateUID ?sA"
    by (simp add: uid_onStartEvaluate)
  also have "\<dots> \<le> evaluateUID (run evs1 ?sA)" by (rule uid_run_mono)
  also have "\<dots> < evaluateUID ?sB" by (simp add: uid_onStartEvaluate)
  also have "\<dots> \<le> evaluateUID (run evs2 ?sB)" by (rule uid_run_mono)
  finally show ?thesis .
qed

text \<open>
  Claim C10. The counter is one field of the module state. Every event that starts an
  invocation adds exactly 1 to it and no other event changes it, so it is never
  decremented or reset; the generation an invocation captures is the incremented
  value. Along every run, over all editors, the captured generations are strictly
  increasing, hence pairwise distinct, and an invocation started after another one, on
  any editor, captures a strictly greater generation.
\<close>

theorem generation_counter_monotone:
  "evaluateUID (step ev s) = evaluateUID s + (if startsInvocation ev then 1 else 0)
   \<and> currentEvaluateUID (fst (onStartEvaluate ed rng s)) = evaluateUID s + 1
   \<and> evaluateUID (snd (onStartEvaluate ed rng s)) = evaluateUID s + 1
   \<and> evaluateUID (run evs s) = evaluateUID s + length (filter startsInvocation evs)
   \<and> length (generations evs s) = length (filter startsInvocation evs)
   \<and> sorted_wrt (<) (generations evs s)
   \<and> distinct (generations evs s)
   \<and> currentEvaluateUID (fst (onStartEvaluate ed rng s))
       < currentEvaluateUID (fst (onStartEvaluate ed' rng'
           (run evs (snd (onStartEvaluate ed rng s)))))"
proof (intro conjI)
  show "distinct (generations evs s)"
    using generations_sorted[of evs s] strict_sorted_iff by blast
  have "evaluateUID (snd (onStartEvaluate ed rng s))
          \<le> evaluateUID (run evs (snd (onStartEvaluate ed rng s)))"
    by (rule uid_run_mono)
  then show "currentEvaluateUID (fst (onStartEvaluate ed rng s))
       < currentEvaluateUID (fst (onStartEvaluate ed' rng'
           (run evs (snd (onStartEvaluate ed rng s)))))"
    by (simp add: uid_onStartEvaluate)
qed (simp_all add: uid_step uid_onStartEvaluate uid_run generations_length generations_sorted)

theorem generation_counter_monotone_witness:
  "generations
     [Evaluate (Some (someDoc 1)) someRange, TimerFires 0,
      Evaluate (Some (someDoc 2)) someRange, Evaluate None someRange,
      Evaluate (Some (someDoc 1)) someRange]
     (initial (\<lambda>k. None)) = [1, 2, 3]
   \<and> distinct (generations
     [Evaluate (Some (someDoc 1)) someRange, TimerFires 0,
      Evaluate (Some (someDoc 2)) someRange, Evaluate None someRange,
      Evaluate (Some (someDoc 1)) someRange]
     (initial (\<lambda>k. None)))
   \<and> evaluateUID (run
     [Evaluate (Some (someDoc 1)) someRange, TimerFires 0,
      Evaluate (Some (someDoc 2)) someRange, Evaluate None someRange,
      Evaluate (Some (someDoc 1)) someRange]
     (initial (\<lambda>k. None))) = 3"
proof -
  let ?evs = "[Evaluate (Some (someDoc 1)) someRange, TimerFires 0,
      Evaluate (Some (someDoc 2)) someRange, Evaluate None someRange,
      Evaluate (Some (someDoc 1)) someRange]"
  note t = generation_counter_monotone[of _ "initial (\<lambda>k. None)" _ _ ?evs]
  have a: "generations ?evs (initial (\<lambda>k. None)) = [1, 2, 3]"
    by (simp add: uid_onStartEvaluate initial_def)
  have b: "distinct (generations ?evs (initial (\<lambda>k. None)))"
    using t by blast
  have "evaluateUID (run ?evs (initial (\<lambda>k. None)))
          = evaluateUID (initial (\<lambda>k. None)) + length (filter startsInvocation ?evs)"
    using t by blast
  then have c: "evaluateUID (run ?evs (initial (\<lambda>k. None))) = 3"
    by (simp add: initial_def)
  show ?thesis using a b c by blast
qed

lemmas run_defs = initial_def onStartEvaluate_def evaluateString_def setDecorations_def
  setTimeout_def await_def finishFunc_def onEndEvaluate_def onResponse_def completionCall_def
  removeAt_def configGet_def decoratorTimeout_def someDoc_def resultOnly_def Let_def








section \<open>Editors and the timeout\<close>

lemma decorations_setDecorations_other:
  "e \<noteq> e' \<Longrightarrow> decorations (setDecorations e' d ds s) e = decorations s e"
  by (simp add: setDecorations_def)

lemma decorations_setTimeout [simp]: "decorations (setTimeout cb ms s) = decorations s"
  by (simp add: setTimeout_def)

lemma decorations_await [simp]: "decorations (await p k s) = decorations s"
  by (simp add: await_def)

lemma decorations_onStartEvaluate_other:
  "e \<noteq> e' \<Longrightarrow> decorations (snd (onStartEvaluate e' rng s)) e = decorations s e"
  by (simp add: onStartEvaluate_def Let_def decorations_setDecorations_other)

lemma decorations_runCallback_other:
  "e \<noteq> e' \<Longrightarrow> decorations (runCallback (ClearOnTimeout e' g) s) e = decorations s e"
  by (simp add: decorations_setDecorations_other)

lemma decorations_runContinuation_other:
  "e \<noteq> e' \<Longrightarrow>
   decorations (runContinuation (AfterFlashDelay e' rng t b p) s) e = decorations s e
   \<and> decorations (runContinuation (AfterPostFlashDelay e' b) s) e = decorations s e"
  by (simp add: Let_def decorations_setDecorations_other)

text \<open>
  Claim C3, as stated, fails. Invocation A on editor 1 is followed by invocation B on
  editor 2. Before B starts, A's completion callback enters \<^verbatim>\<open>onEndEvaluate\<close> and A's
  timeout clears the evaluating annotation of editor 1; after B has started, A's
  callback and A's timeout leave the state as it is, and the evaluating annotation of
  editor 1 stays.
\<close>

theorem editors_share_counter_counterexample:
  "(let (fA, sA) = onStartEvaluate 1 someRange (initial (\<lambda>k. None));
        (fB, sB) = onStartEvaluate 2 otherRange sA
    in suspended (finishFunc fA ''2'' False sA)
         = [(FlashDelay 1, AfterFlashDelay 1 someRange ''2'' False (PostFlashDelay 1))]
       \<and> finishFunc fA ''2'' False sB = sB
       \<and> suspended sB = []
       \<and> decorations (runCallback (ClearOnTimeout 1 (currentEvaluateUID fA)) sA) 1 evaluateDecorator
           = []
       \<and> runCallback (ClearOnTimeout 1 (currentEvaluateUID fA)) sB = sB
       \<and> decorations sB 1 evaluateDecorator
           = [\<lparr>decoRange = someRange, hoverMessage = ''Evaluated the thing''\<rparr>])"
  by (simp add: run_defs)

text \<open>
  Claim C3, amended. The annotation state is kept per editor: an invocation on another
  editor, its timeout and its completion rendering leave the decorations of this
  editor as they are. The generation counter is one counter for all editors: an
  invocation B on another editor that starts after invocation A captures a greater
  generation, and from then on A's completion callback, the response handler calling
  it, and A's timeout leave the state as it is.
\<close>

theorem editors_share_counter:
  "e \<noteq> e' \<longrightarrow>
     decorations (snd (onStartEvaluate e' rB s0)) e = decorations s0 e
     \<and> decorations (runCallback (ClearOnTimeout e' g) s0) e = decorations s0 e
     \<and> decorations (runContinuation (AfterFlashDelay e' rB t b p) s0) e = decorations s0 e
     \<and> decorations (runContinuation (AfterPostFlashDelay e' b) s0) e = decorations s0 e
     \<and> (let (fA, sA) = onStartEvaluate e rA s0;
             (fB, sB) = onStartEvaluate e' rB (run evs1 sA);
             s = run evs2 sB
         in currentEvaluateUID fA < currentEvaluateUID fB
            \<and> finishFunc fA tA errA s = s
            \<and> onResponse fA resA s = s
            \<and> runCallback (ClearOnTimeout e (currentEvaluateUID fA)) s = s)"
proof (intro impI conjI)
  assume ne: "e \<noteq> e'"
  show "decorations (snd (onStartEvaluate e' rB s0)) e = decorations s0 e"
    using ne by (rule decorations_onStartEvaluate_other)
  show "decorations (runCallback (ClearOnTimeout e' g) s0) e = decorations s0 e"
    using ne by (rule decorations_runCallback_other)
  show "decorations (runContinuation (AfterFlashDelay e' rB t b p) s0) e = decorations s0 e"
    using decorations_runContinuation_other[OF ne] by blast
  show "decorations (runContinuation (AfterPostFlashDelay e' b) s0) e = decorations s0 e"
    using decorations_runContinuation_other[OF ne] by blast
  let ?fA = "fst (onStartEvaluate e rA s0)"
  let ?sA = "snd (onStartEvaluate e rA s0)"
  let ?fB = "fst (onStartEvaluate e' rB (run evs1 ?sA))"
  let ?sB = "snd (onStartEvaluate e' rB (run evs1 ?sA))"
  have stale: "currentEvaluateUID ?fA < evaluateUID (run evs2 ?sB)"
    by (rule stale_after_later_invocation)
  have "evaluateUID ?sA \<le> evaluateUID (run evs1 ?sA)" by (rule uid_run_mono)
  then have lt: "currentEvaluateUID ?fA < currentEvaluateUID ?fB"
    by (simp add: uid_onStartEvaluate)
  show "let (fA, sA) = onStartEvaluate e rA s0;
             (fB, sB) = onStartEvaluate e' rB (run evs1 sA);
             s = run evs2 sB
         in currentEvaluateUID fA < currentEvaluateUID fB
            \<and> finishFunc fA tA errA s = s
            \<and> onResponse fA resA s = s
            \<and> runCallback (ClearOnTimeout e (currentEvaluateUID fA)) s = s"
    unfolding Let_def case_prod_beta
    using lt finishFunc_stale[OF stale] onResponse_stale[OF stale] timeout_stale[OF stale]
    by blast
qed

theorem editors_share_counter_witness:
  "(1::nat) \<noteq> 2
   \<and> decorations (snd (onStartEvaluate 2 otherRange (snd (onStartEvaluate 1 someRange (initial (\<lambda>k. None)))))) 1
       = decorations (snd (onStartEvaluate 1 someRange (initial (\<lambda>k. None)))) 1
   \<and> finishFunc (fst (onStartEvaluate 1 someRange (initial (\<lambda>k. None)))) ''2'' False
        (snd (onStartEvaluate 2 otherRange (snd (onStartEvaluate 1 someRange (initial (\<lambda>k. None))))))
       = snd (onStartEvaluate 2 otherRange (snd (onStartEvaluate 1 someRange (initial (\<lambda>k. None)))))"
proof -
  have ne: "(1::nat) \<noteq> 2" by simp
  note t = editors_share_counter[of 1 2 otherRange "snd (onStartEvaluate 1 someRange (initial (\<lambda>k. None)))",
      rule_format, OF ne]
  note u = editors_share_counter[of 1 2 otherRange "initial (\<lambda>k. None)" _ _ _ _ someRange "[]" "[]" "''2''" False,
      rule_format, OF ne, unfolded Let_def case_prod_beta run.simps]
  show ?thesis using ne t u by blast
qed

text \<open>
  Claim C8. Every invocation arms, first of its three timers, the timeout closure with
  the delay 5000, whatever the configuration holds. When that timer fires with the
  counter equal to the captured generation it sets the evaluating decorations of its
  editor to the empty list; with any other counter value it leaves the state as it
  is. In both cases the success and error decorations of every editor are unchanged
  and no coroutine is started.
\<close>

theorem timeout_clears_silently:
  "decoratorTimeout = 5000
   \<and> timers (snd (onStartEvaluate ed rng s)) =
       timers s @
       [\<lparr>callback = ClearOnTimeout ed (evaluateUID s + 1), delay = 5000\<rparr>,
        \<lparr>callback = Resolve (FlashDelay (evaluateUID s + 1)),
         delay = configGet (configuration s) ''supercollider.evaluate.flashTime'' 50\<rparr>,
        \<lparr>callback = Resolve (PostFlashDelay (evaluateUID s + 1)),
         delay = configGet (configuration s) ''supercollider.evaluate.postFlashTime'' 600\<rparr>]
   \<and> (evaluateUID s = g \<longrightarrow>
         runCallback (ClearOnTimeout ed g) s = setDecorations ed evaluateDecorator [] s
         \<and> decorations (runCallback (ClearOnTimeout ed g) s) ed evaluateDecorator = [])
   \<and> (evaluateUID s \<noteq> g \<longrightarrow> runCallback (ClearOnTimeout ed g) s = s)
   \<and> decorations (runCallback (ClearOnTimeout ed g) s) e successDecorator
       = decorations s e successDecorator
   \<and> decorations (runCallback (ClearOnTimeout ed g) s) e errorDecorator
       = decorations s e errorDecorator
   \<and> suspended (runCallback (ClearOnTimeout ed g) s) = suspended s"
  by (simp add: decoratorTimeout_def onStartEvaluate_def Let_def setTimeout_def setDecorations_def)

theorem timeout_clears_silently_witness:
  "evaluateUID (snd (onStartEvaluate 1 someRange (initial (\<lambda>k. None)))) = 1
   \<and> decorations (snd (onStartEvaluate 1 someRange (initial (\<lambda>k. None)))) 1 evaluateDecorator
       = [\<lparr>decoRange = someRange, hoverMessage = ''Evaluated the thing''\<rparr>]
   \<and> decorations (runCallback (ClearOnTimeout 1 1)
         (snd (onStartEvaluate 1 someRange (initial (\<lambda>k. None))))) 1 evaluateDecorator = []
   \<and> evaluateUID (snd (onStartEvaluate 1 otherRange (snd (onStartEvaluate 1 someRange (initial (\<lambda>k. None))))))
       \<noteq> 1
   \<and> runCallback (ClearOnTimeout 1 1)
        (snd (onStartEvaluate 1 otherRange (snd (onStartEvaluate 1 someRange (initial (\<lambda>k. None))))))
       = snd (onStartEvaluate 1 otherRange (snd (onStartEvaluate 1 someRange (initial (\<lambda>k. None)))))"
proof -
  let ?sA = "snd (onStartEvaluate 1 someRange (initial (\<lambda>k. None)))"
  let ?sB = "snd (onStartEvaluate 1 otherRange ?sA)"
  have a: "evaluateUID ?sA = 1" by (simp add: uid_onStartEvaluate initial_def)
  have b: "evaluateUID ?sB \<noteq> 1" by (simp add: uid_onStartEvaluate initial_def)
  have d: "decorations ?sA 1 evaluateDecorator
       = [\<lparr>decoRange = someRange, hoverMessage = ''Evaluated the thing''\<rparr>]"
    by (simp add: run_defs)
  from timeout_clears_silently[of 1 someRange ?sA 1] a
  have c1: "decorations (runCallback (ClearOnTimeout 1 1) ?sA) 1 evaluateDecorator = []"
    by blast
  from timeout_clears_silently[of 1 someRange ?sB 1] b
  have c2: "runCallback (ClearOnTimeout 1 1) ?sB = ?sB"
    by blast
  show ?thesis using a b d c1 c2 by blast
qed

section \<open>Responses\<close>

lemma definedFields_one:
  "definedFields r = 1 \<longleftrightarrow>
     (result r \<noteq> None \<and> compileError r = None \<and> error r = None)
     \<or> (result r = None \<and> compileError r \<noteq> None \<and> error r = None)
     \<or> (result r = None \<and> compileError r = None \<and> error r \<noteq> None)"
  by (auto simp: definedFields_def)

lemma definedFields_zero:
  "definedFields r = 0 \<longleftrightarrow> result r = None \<and> compileError r = None \<and> error r = None"
  by (auto simp: definedFields_def)

lemma finishFunc_current:
  "evaluateUID s = currentEvaluateUID f \<Longrightarrow>
   finishFunc f t b s =
     await (evaluateFlashDelay f)
       (AfterFlashDelay (textEditor f) (capturedRange f) t b (postEvaluateFlashDelay f)) s"
  by (simp add: finishFunc_def onEndEvaluate_def)

lemma finishFunc_other: "evaluateUID s \<noteq> currentEvaluateUID f \<Longrightarrow> finishFunc f t b s = s"
  by (simp add: finishFunc_def)

lemma onResponse_call:
  "completionCall r = Some (t, b) \<Longrightarrow> onResponse f r s = finishFunc f t b s"
  by (simp add: onResponse_def)

lemma onResponse_other: "evaluateUID s \<noteq> currentEvaluateUID f \<Longrightarrow> onResponse f r s = s"
  by (simp add: onResponse_def finishFunc_other split: option.splits prod.splits)

lemma suspended_await: "suspended (await p k s) = suspended s @ [(p, k)]"
  by (simp add: await_def)

lemma onStartEvaluate_state:
  "decorations (snd (onStartEvaluate ed rng s0)) ed evaluateDecorator
     = [\<lparr>decoRange = rng, hoverMessage = ''Evaluated the thing''\<rparr>]"
  "suspended (snd (onStartEvaluate ed rng s0)) = suspended s0"
  by (simp_all add: onStartEvaluate_def Let_def setDecorations_def setTimeout_def)

text \<open>
  Claim C7. For a response that defines exactly one of its three fields the handler
  calls the completion callback: with the text of \<^verbatim>\<open>result\<close> and isError false, or with
  the text of \<^verbatim>\<open>compileError\<close> or of \<^verbatim>\<open>error\<close> and isError true. When the generation of
  the callback is the current one, the call suspends \<^verbatim>\<open>onEndEvaluate\<close> at the flash
  delay with that text and that flag, and otherwise it changes nothing. For a compile
  error and for a runtime error the suspended coroutine is the same but for the text.
  Resumed, it clears the evaluating and the success decorations of the editor, paints
  the error decoration over the range with the text as hover message and suspends at
  the second delay, after which it clears the error decoration. For an invocation
  that has just started, a compile error and a runtime error with the same text give
  the same state.
\<close>

theorem response_dispatch:
  "(definedFields r = 1 \<longrightarrow>
      completionCall r \<noteq> None
      \<and> (result r = Some t \<longrightarrow> completionCall r = Some (t, False))
      \<and> (compileError r = Some t \<longrightarrow> completionCall r = Some (t, True))
      \<and> (error r = Some t \<longrightarrow> completionCall r = Some (t, True)))
   \<and> (definedFields r = 1 \<and> evaluateUID s = currentEvaluateUID f \<longrightarrow>
        (result r = Some t \<longrightarrow>
           onResponse f r s =
             await (evaluateFlashDelay f)
               (AfterFlashDelay (textEditor f) (capturedRange f) t False
                  (postEvaluateFlashDelay f)) s)
        \<and> (compileError r = Some t \<or> error r = Some t \<longrightarrow>
             onResponse f r s =
               await (evaluateFlashDelay f)
                 (AfterFlashDelay (textEditor f) (capturedRange f) t True
                    (postEvaluateFlashDelay f)) s))
   \<and> (evaluateUID s \<noteq> currentEvaluateUID f \<longrightarrow> onResponse f r s = s)
   \<and> onResponse f \<lparr>compileError = None, result = Some t, error = None\<rparr> s
       = finishFunc f t False s
   \<and> onResponse f \<lparr>compileError = Some t, result = None, error = None\<rparr> s
       = finishFunc f t True s
   \<and> onResponse f \<lparr>compileError = None, result = None, error = Some t\<rparr> s
       = finishFunc f t True s
   \<and> runContinuation (AfterFlashDelay ed rng t True p) s
       = await p (AfterPostFlashDelay ed True)
           (setDecorations ed errorDecorator [\<lparr>decoRange = rng, hoverMessage = t\<rparr>]
             (setDecorations ed successDecorator []
               (setDecorations ed evaluateDecorator [] s)))
   \<and> decorations (runContinuation (AfterFlashDelay ed rng t True p) s) ed
       = (decorations s ed)
           (evaluateDecorator := [], successDecorator := [],
            errorDecorator := [\<lparr>decoRange = rng, hoverMessage = t\<rparr>])
   \<and> decorations (runContinuation (AfterFlashDelay ed rng t False p) s) ed
       = (decorations s ed)
           (evaluateDecorator := [], errorDecorator := [],
            successDecorator := [\<lparr>decoRange = rng, hoverMessage = t\<rparr>])
   \<and> runContinuation (AfterPostFlashDelay ed True) s = setDecorations ed errorDecorator [] s
   \<and> (let (f0, s1) = onStartEvaluate ed rng s0;
            k = AfterFlashDelay ed rng t True (PostFlashDelay (evaluateUID s1));
            sc = onResponse f0 \<lparr>compileError = Some t, result = None, error = None\<rparr> s1;
            se = onResponse f0 \<lparr>compileError = None, result = None, error = Some t\<rparr> s1
        in sc = await (FlashDelay (evaluateUID s1)) k s1
           \<and> se = sc
           \<and> suspended sc = suspended s0 @ [(FlashDelay (evaluateUID s1), k)]
           \<and> decorations (runContinuation k sc) ed errorDecorator
               = [\<lparr>decoRange = rng, hoverMessage = t\<rparr>]
           \<and> decorations (runContinuation k sc) ed successDecorator = []
           \<and> decorations (runContinuation k sc) ed evaluateDecorator = []
           \<and> suspended (runContinuation k sc)
               = suspended sc @ [(PostFlashDelay (evaluateUID s1), AfterPostFlashDelay ed True)]
           \<and> decorations (runContinuation (AfterPostFlashDelay ed True) (runContinuation k sc))
                ed errorDecorator = [])"
proof (intro conjI impI)
  assume "definedFields r = 1"
  then have one:
    "(result r \<noteq> None \<and> compileError r = None \<and> error r = None)
     \<or> (result r = None \<and> compileError r \<noteq> None \<and> error r = None)
     \<or> (result r = None \<and> compileError r = None \<and> error r \<noteq> None)"
    by (simp only: definedFields_one)
  then show "completionCall r \<noteq> None"
    by (auto simp: completionCall_def)
  { assume "result r = Some t"
    then show "completionCall r = Some (t, False)" by (simp add: completionCall_def) }
  { assume "compileError r = Some t"
    with one show "completionCall r = Some (t, True)"
      by (auto simp: completionCall_def) }
  { assume "error r = Some t"
    with one show "completionCall r = Some (t, True)"
      by (auto simp: completionCall_def) }
next
  assume h: "definedFields r = 1 \<and> evaluateUID s = currentEvaluateUID f"
  then have one:
    "(result r \<noteq> None \<and> compileError r = None \<and> error r = None)
     \<or> (result r = None \<and> compileError r \<noteq> None \<and> error r = None)
     \<or> (result r = None \<and> compileError r = None \<and> error r \<noteq> None)"
    by (simp only: definedFields_one)
  from h have cur: "evaluateUID s = currentEvaluateUID f" by simp
  { assume "result r = Some t"
    then have "completionCall r = Some (t, False)" by (simp add: completionCall_def)
    from onResponse_call[OF this] show "onResponse f r s =
             await (evaluateFlashDelay f)
               (AfterFlashDelay (textEditor f) (capturedRange f) t False
                  (postEvaluateFlashDelay f)) s"
      by (simp add: finishFunc_current[OF cur]) }
  { assume "compileError r = Some t \<or> error r = Some t"
    with one have "completionCall r = Some (t, True)"
      by (auto simp: completionCall_def)
    from onResponse_call[OF this] show "onResponse f r s =
               await (evaluateFlashDelay f)
                 (AfterFlashDelay (textEditor f) (capturedRange f) t True
                    (postEvaluateFlashDelay f)) s"
      by (simp add: finishFunc_current[OF cur]) }
next
  assume "evaluateUID s \<noteq> currentEvaluateUID f"
  then show "onResponse f r s = s" by (rule onResponse_other)
next
  let ?f0 = "fst (onStartEvaluate ed rng s0)"
  let ?s1 = "snd (onStartEvaluate ed rng s0)"
  let ?g = "evaluateUID ?s1"
  let ?k = "AfterFlashDelay ed rng t True (PostFlashDelay ?g)"
  let ?sc = "onResponse ?f0 \<lparr>compileError = Some t, result = None, error = None\<rparr> ?s1"
  let ?se = "onResponse ?f0 \<lparr>compileError = None, result = None, error = Some t\<rparr> ?s1"
  have g: "?g = evaluateUID s0 + 1" by (simp add: uid_onStartEvaluate)
  have cur: "evaluateUID ?s1 = currentEvaluateUID ?f0" by (simp add: uid_onStartEvaluate)
  have flds: "textEditor ?f0 = ed" "capturedRange ?f0 = rng"
    "evaluateFlashDelay ?f0 = FlashDelay ?g" "postEvaluateFlashDelay ?f0 = PostFlashDelay ?g"
    by (simp_all add: closure_onStartEvaluate g)
  have sc: "?sc = await (FlashDelay ?g) ?k ?s1"
    using finishFunc_current[OF cur, of t True] flds
    by (simp add: onResponse_def completionCall_def)
  have se: "?se = await (FlashDelay ?g) ?k ?s1"
    using finishFunc_current[OF cur, of t True] flds
    by (simp add: onResponse_def completionCall_def)
  have su: "suspended ?sc = suspended s0 @ [(FlashDelay ?g, ?k)]"
    unfolding sc by (simp add: await_def onStartEvaluate_state)
  have d1: "decorations (runContinuation ?k ?sc) ed errorDecorator
               = [\<lparr>decoRange = rng, hoverMessage = t\<rparr>]"
    and d2: "decorations (runContinuation ?k ?sc) ed successDecorator = []"
    and d3: "decorations (runContinuation ?k ?sc) ed evaluateDecorator = []"
    and d4: "suspended (runContinuation ?k ?sc)
               = suspended ?sc @ [(PostFlashDelay ?g, AfterPostFlashDelay ed True)]"
    and d5: "decorations (runContinuation (AfterPostFlashDelay ed True) (runContinuation ?k ?sc))
                ed errorDecorator = []"
    by (simp_all add: Let_def setDecorations_def await_def)
  show "let (f0, s1) = onStartEvaluate ed rng s0;
            k = AfterFlashDelay ed rng t True (PostFlashDelay (evaluateUID s1));
            sc = onResponse f0 \<lparr>compileError = Some t, result = None, error = None\<rparr> s1;
            se = onResponse f0 \<lparr>compileError = None, result = None, error = Some t\<rparr> s1
        in sc = await (FlashDelay (evaluateUID s1)) k s1
           \<and> se = sc
           \<and> suspended sc = suspended s0 @ [(FlashDelay (evaluateUID s1), k)]
           \<and> decorations (runContinuation k sc) ed errorDecorator
               = [\<lparr>decoRange = rng, hoverMessage = t\<rparr>]
           \<and> decorations (runContinuation k sc) ed successDecorator = []
           \<and> decorations (runContinuation k sc) ed evaluateDecorator = []
           \<and> suspended (runContinuation k sc)
               = suspended sc @ [(PostFlashDelay (evaluateUID s1), AfterPostFlashDelay ed True)]
           \<and> decorations (runContinuation (AfterPostFlashDelay ed True) (runContinuation k sc))
                ed errorDecorator = []"
    unfolding Let_def case_prod_beta
    using sc se su d1 d2 d3 d4 d5 by (intro conjI) simp_all
qed (simp_all add: onResponse_def completionCall_def Let_def setDecorations_def)

theorem response_dispatch_witness:
  "definedFields \<lparr>compileError = None, result = None, error = Some ''DivideByZero''\<rparr> = 1
   \<and> completionCall \<lparr>compileError = None, result = None, error = Some ''DivideByZero''\<rparr>
       = Some (''DivideByZero'', True)
   \<and> definedFields \<lparr>compileError = Some ''unexpected end'', result = None, error = None\<rparr> = 1
   \<and> completionCall \<lparr>compileError = Some ''unexpected end'', result = None, error = None\<rparr>
       = Some (''unexpected end'', True)
   \<and> definedFields (resultOnly ''2'') = 1
   \<and> completionCall (resultOnly ''2'') = Some (''2'', False)
   \<and> suspended
        (onResponse (fst (onStartEvaluate 1 someRange (initial (\<lambda>k. None))))
           \<lparr>compileError = None, result = None, error = Some ''DivideByZero''\<rparr>
           (snd (onStartEvaluate 1 someRange (initial (\<lambda>k. None)))))
       = [(FlashDelay 1, AfterFlashDelay 1 someRange ''DivideByZero'' True (PostFlashDelay 1))]
   \<and> decorations
        (run [Evaluate (Some (someDoc 1)) someRange,
              Response 0 \<lparr>compileError = None, result = None, error = Some ''DivideByZero''\<rparr>,
              TimerFires 1, Resumes 0] (initial (\<lambda>k. None))) 1 errorDecorator
       = [\<lparr>decoRange = someRange, hoverMessage = ''DivideByZero''\<rparr>]
   \<and> decorations
        (run [Evaluate (Some (someDoc 1)) someRange,
              Response 0 \<lparr>compileError = Some ''DivideByZero'', result = None, error = None\<rparr>,
              TimerFires 1, Resumes 0] (initial (\<lambda>k. None))) 1 errorDecorator
       = [\<lparr>decoRange = someRange, hoverMessage = ''DivideByZero''\<rparr>]
   \<and> decorations
        (run [Evaluate (Some (someDoc 1)) someRange,
              Response 0 \<lparr>compileError = None, result = None, error = Some ''DivideByZero''\<rparr>,
              TimerFires 1, Resumes 0, TimerFires 1, Resumes 0] (initial (\<lambda>k. None))) 1 errorDecorator
       = []
   \<and> decorations
        (run [Evaluate (Some (someDoc 1)) someRange, Response 0 (resultOnly ''2''),
              TimerFires 1, Resumes 0] (initial (\<lambda>k. None))) 1 successDecorator
       = [\<lparr>decoRange = someRange, hoverMessage = ''2''\<rparr>]"
proof -
  let ?e = "\<lparr>compileError = None, result = None, error = Some ''DivideByZero''\<rparr>"
  let ?c = "\<lparr>compileError = Some ''unexpected end'', result = None, error = None\<rparr>"
  let ?ini = "initial (\<lambda>k. None)"
  let ?f = "fst (onStartEvaluate 1 someRange ?ini)"
  let ?s = "snd (onStartEvaluate 1 someRange ?ini)"
  have d1: "definedFields ?e = 1" by (simp add: definedFields_def)
  have d2: "definedFields ?c = 1" by (simp add: definedFields_def)
  have d3: "definedFields (resultOnly ''2'') = 1" by (simp add: definedFields_def resultOnly_def)
  have c1: "completionCall ?e = Some (''DivideByZero'', True)"
    using response_dispatch[of ?e "''DivideByZero''"] d1 by simp
  have c2: "completionCall ?c = Some (''unexpected end'', True)"
    using response_dispatch[of ?c "''unexpected end''"] d2 by simp
  have c3: "completionCall (resultOnly ''2'') = Some (''2'', False)"
    using response_dispatch[of "resultOnly ''2''" "''2''"] d3 by (simp add: resultOnly_def)
  have cur: "evaluateUID ?s = currentEvaluateUID ?f" by (simp add: uid_onStartEvaluate)
  have "onResponse ?f ?e ?s =
          await (evaluateFlashDelay ?f)
            (AfterFlashDelay (textEditor ?f) (capturedRange ?f) ''DivideByZero'' True
               (postEvaluateFlashDelay ?f)) ?s"
    using response_dispatch[of ?e "''DivideByZero''" ?s ?f] d1 cur by simp
  then have "suspended (onResponse ?f ?e ?s)
       = suspended ?s @ [(evaluateFlashDelay ?f,
            AfterFlashDelay (textEditor ?f) (capturedRange ?f) ''DivideByZero'' True
               (postEvaluateFlashDelay ?f))]"
    by (simp only: suspended_await)
  moreover have "suspended ?s = []" by (simp add: onStartEvaluate_state initial_def)
  moreover have "evaluateFlashDelay ?f = FlashDelay 1" "postEvaluateFlashDelay ?f = PostFlashDelay 1"
    "textEditor ?f = 1" "capturedRange ?f = someRange"
    by (simp_all add: closure_onStartEvaluate initial_def)
  ultimately have c4: "suspended (onResponse ?f ?e ?s)
       = [(FlashDelay 1, AfterFlashDelay 1 someRange ''DivideByZero'' True (PostFlashDelay 1))]"
    by simp
  have r1: "decorations
        (run [Evaluate (Some (someDoc 1)) someRange, Response 0 ?e,
              TimerFires 1, Resumes 0] ?ini) 1 errorDecorator
       = [\<lparr>decoRange = someRange, hoverMessage = ''DivideByZero''\<rparr>]"
    by (simp add: run_defs)
  have r2: "decorations
        (run [Evaluate (Some (someDoc 1)) someRange,
              Response 0 \<lparr>compileError = Some ''DivideByZero'', result = None, error = None\<rparr>,
              TimerFires 1, Resumes 0] ?ini) 1 errorDecorator
       = [\<lparr>decoRange = someRange, hoverMessage = ''DivideByZero''\<rparr>]"
    by (simp add: run_defs)
  have r3: "decorations
        (run [Evaluate (Some (someDoc 1)) someRange, Response 0 ?e,
              TimerFires 1, Resumes 0, TimerFires 1, Resumes 0] ?ini) 1 errorDecorator
       = []"
    by (simp add: run_defs)
  have r4: "decorations
        (run [Evaluate (Some (someDoc 1)) someRange, Response 0 (resultOnly ''2''),
              TimerFires 1, Resumes 0] ?ini) 1 successDecorator
       = [\<lparr>decoRange = someRange, hoverMessage = ''2''\<rparr>]"
    by (simp add: run_defs)
  show ?thesis using d1 d2 d3 c1 c2 c3 c4 r1 r2 r3 r4 by blast
qed

text \<open>
  Claim C2, as stated, fails. For a response that defines both \<^verbatim>\<open>result\<close> and
  \<^verbatim>\<open>compileError\<close> the handler calls the completion callback with the result text and
  isError false; the callback enters \<^verbatim>\<open>onEndEvaluate\<close>, and once the flash delay has
  passed the success decoration is painted and the evaluating decoration is cleared.
\<close>

theorem ill_formed_result_counterexample:
  "definedFields \<lparr>compileError = Some ''parse error'', result = Some ''2'', error = None\<rparr> = 2
   \<and> completionCall \<lparr>compileError = Some ''parse error'', result = Some ''2'', error = None\<rparr>
       = Some (''2'', False)
   \<and> suspended (snd (onStartEvaluate 1 someRange (initial (\<lambda>k. None)))) = []
   \<and> suspended
        (onResponse (fst (onStartEvaluate 1 someRange (initial (\<lambda>k. None))))
           \<lparr>compileError = Some ''parse error'', result = Some ''2'', error = None\<rparr>
           (snd (onStartEvaluate 1 someRange (initial (\<lambda>k. None)))))
       = [(FlashDelay 1, AfterFlashDelay 1 someRange ''2'' False (PostFlashDelay 1))]
   \<and> decorations
        (run [Evaluate (Some (someDoc 1)) someRange,
              Response 0 \<lparr>compileError = Some ''parse error'', result = Some ''2'', error = None\<rparr>,
              TimerFires 1, Resumes 0] (initial (\<lambda>k. None))) 1 successDecorator
       = [\<lparr>decoRange = someRange, hoverMessage = ''2''\<rparr>]
   \<and> decorations
        (run [Evaluate (Some (someDoc 1)) someRange,
              Response 0 \<lparr>compileError = Some ''parse error'', result = Some ''2'', error = None\<rparr>,
              TimerFires 1, Resumes 0] (initial (\<lambda>k. None))) 1 evaluateDecorator
       = []"
  by (simp add: run_defs definedFields_def)

text \<open>
  Claim C2, amended. For a response that defines none of the three fields the handler
  does not call the completion callback and leaves the state as it is; this is the
  only case in which it makes no call. When more than one field is defined the
  handler makes the call of the first defined field in the order \<^verbatim>\<open>result\<close>,
  \<^verbatim>\<open>compileError\<close>, \<^verbatim>\<open>error\<close>.
\<close>

theorem ill_formed_result:
  "(definedFields r = 0 \<longrightarrow> completionCall r = None \<and> onResponse f r s = s)
   \<and> (completionCall r = None \<longrightarrow> definedFields r = 0)
   \<and> (result r = Some t \<longrightarrow>
         completionCall r = Some (t, False) \<and> onResponse f r s = finishFunc f t False s)
   \<and> (result r = None \<and> compileError r = Some t \<longrightarrow>
         completionCall r = Some (t, True) \<and> onResponse f r s = finishFunc f t True s)
   \<and> (result r = None \<and> compileError r = None \<and> error r = Some t \<longrightarrow>
         completionCall r = Some (t, True) \<and> onResponse f r s = finishFunc f t True s)"
  by (auto simp: definedFields_zero completionCall_def onResponse_def split: if_splits)

theorem ill_formed_result_witness:
  "definedFields \<lparr>compileError = None, result = None, error = None\<rparr> = 0
   \<and> completionCall \<lparr>compileError = None, result = None, error = None\<rparr> = None
   \<and> onResponse (fst (onStartEvaluate 1 someRange (initial (\<lambda>k. None))))
        \<lparr>compileError = None, result = None, error = None\<rparr>
        (snd (onStartEvaluate 1 someRange (initial (\<lambda>k. None))))
       = snd (onStartEvaluate 1 someRange (initial (\<lambda>k. None)))
   \<and> completionCall \<lparr>compileError = Some ''parse error'', result = None, error = Some ''x''\<rparr>
       = Some (''parse error'', True)"
proof -
  let ?z = "\<lparr>compileError = None, result = None, error = None\<rparr>"
  let ?m = "\<lparr>compileError = Some ''parse error'', result = None, error = Some ''x''\<rparr>"
  have d: "definedFields ?z = 0" by (simp add: definedFields_def)
  note t = ill_formed_result[of ?z "fst (onStartEvaluate 1 someRange (initial (\<lambda>k. None)))"
      "snd (onStartEvaluate 1 someRange (initial (\<lambda>k. None)))"]
  have a: "completionCall ?z = None" using t d by blast
  have b: "onResponse (fst (onStartEvaluate 1 someRange (initial (\<lambda>k. None)))) ?z
        (snd (onStartEvaluate 1 someRange (initial (\<lambda>k. None))))
       = snd (onStartEvaluate 1 someRange (initial (\<lambda>k. None)))"
    using t d by blast
  have c: "completionCall ?m = Some (''parse error'', True)"
    using ill_formed_result[of ?m _ _ "''parse error''"] by simp
  show ?thesis using d a b c by blast
qed

section \<open>Without an active editor\<close>

text \<open>With an editor as the host provides it, no locator and no handler throws.\<close>

lemma handlers_with_editor:
  assumes v: "validEditor ed"
  shows "evaluateRegionCommand (Some ed) s \<noteq> Inl x"
    and "evaluateLineCommand (Some ed) s \<noteq> Inl x"
    and "evaluateSelectionCommand (Some ed) inputRange s \<noteq> Inl x"
    and "currentDocumentLine (Some ed) \<noteq> Inl x"
    and "currentDocumentSelection (Some ed) \<noteq> Inl x"
proof -
  from validEditor_lines[OF v]
  have l: "line (range_start (selection ed)) < length (document ed)"
    "line (range_end (selection ed)) < length (document ed)" by auto
  then show cl: "currentDocumentLine (Some ed) \<noteq> Inl x"
    by (simp add: currentDocumentLine_def lineAt_def)
  show cs: "currentDocumentSelection (Some ed) \<noteq> Inl x"
    by (simp add: currentDocumentSelection_def)
  show "evaluateRegionCommand (Some ed) s \<noteq> Inl x"
    using region_no_error[OF v]
    by (auto simp: evaluateRegionCommand_def split: sum.splits option.splits)
  show "evaluateLineCommand (Some ed) s \<noteq> Inl x"
    using l by (simp add: evaluateLineCommand_def currentDocumentLine_def lineAt_def)
  show "evaluateSelectionCommand (Some ed) inputRange s \<noteq> Inl x"
    using l
    by (cases inputRange)
       (auto simp: evaluateSelectionCommand_def currentDocumentLine_def currentDocumentSelection_def
          lineAt_def split: sum.splits option.splits if_splits)
qed

text \<open>
  Claim C6 at the state without an active editor: \<^verbatim>\<open>currentDocumentRegion\<close> and the three
  command handlers throw a \<^verbatim>\<open>TypeError\<close>, while \<^verbatim>\<open>currentDocumentLine\<close>,
  \<^verbatim>\<open>currentDocumentSelection\<close> and \<^verbatim>\<open>evaluateString\<close> test the editor first and return
  without an effect.
\<close>

theorem no_active_editor_raises:
  "currentDocumentRegion None = Inl TypeError
   \<and> evaluateRegionCommand None s = Inl TypeError
   \<and> evaluateLineCommand None s = Inl TypeError
   \<and> evaluateSelectionCommand None inputRange s = Inl TypeError
   \<and> currentDocumentLine None = Inr None
   \<and> currentDocumentSelection None = Inr None
   \<and> evaluateString None rng s = s"
  by (simp add: currentDocumentRegion_def evaluateRegionCommand_def evaluateLineCommand_def
      evaluateSelectionCommand_def currentDocumentLine_def currentDocumentSelection_def
      evaluateString_def)

end
